theory Spec2Isabelle
  imports Complex_Main "HOL-Library.Sublist"
begin

section \<open>Common conventions\<close>

text \<open>
  The scripts are Python. Python ints are \<open>int\<close>. Every \<^verbatim>\<open>raise\<close> and every
  exception of a built-in operation the scripts rely on is a value \<open>Inl e\<close>.
\<close>

datatype py_error =
  TypeError | ValueError | ZeroDivisionError | KeyError | FileExistsError | IsADirectoryError

section \<open>Float arithmetic\<close>

text \<open>
  A Python float is an IEEE 754 double: a real number with a significand of 53 bits.
  Each of \<^verbatim>\<open>+\<close>, \<^verbatim>\<open>-\<close>, \<^verbatim>\<open>*\<close> and \<^verbatim>\<open>/\<close> on floats returns the exact result
  rounded to the nearest double, ties to the even significand. \<open>double_ulp x\<close> is the
  spacing of the doubles around \<open>x\<close>. Overflow, subnormal numbers, infinities and NaN
  are not modelled: the numbers here are coordinates and their quotients.
\<close>

definition round_half_even :: "real \<Rightarrow> int" where
  "round_half_even q =
     (let n = \<lfloor>q\<rfloor> in
      if q - of_int n < 1 / 2 then n
      else if 1 / 2 < q - of_int n then n + 1
      else if even n then n else n + 1)"

definition double_ulp :: "real \<Rightarrow> real" where
  "double_ulp x = 2 powr of_int (\<lfloor>log 2 \<bar>x\<bar>\<rfloor> - 52)"

definition double_round :: "real \<Rightarrow> real" where
  "double_round x =
     (if x = 0 then 0 else of_int (round_half_even (x / double_ulp x)) * double_ulp x)"

definition float_add :: "real \<Rightarrow> real \<Rightarrow> real" where
  "float_add a b = double_round (a + b)"

definition float_sub :: "real \<Rightarrow> real \<Rightarrow> real" where
  "float_sub a b = double_round (a - b)"

definition float_mul :: "real \<Rightarrow> real \<Rightarrow> real" where
  "float_mul a b = double_round (a * b)"


section \<open>make_Grid.py: selection of the planar coordinate system\<close>

text \<open>
  \<^verbatim>\<open>zone = int((lon + 180)//6) + 1\<close> and
  \<^verbatim>\<open>epsg = 32600 + zone if lat >= 0 else 32700 + zone\<close>.
  The sum is a float addition. \<^verbatim>\<open>//\<close> on floats gives the floor of the quotient of
  the two doubles, and \<^verbatim>\<open>int\<close> turns that whole number into an int.
  \<open>best_utm\<close> returns the EPSG code handed to \<^verbatim>\<open>CRS.from_epsg\<close>.
\<close>

definition best_utm_zone :: "real \<Rightarrow> int" where
  "best_utm_zone lon = \<lfloor>float_add lon 180 / 6\<rfloor> + 1"

definition best_utm :: "real \<Rightarrow> real \<Rightarrow> int" where
  "best_utm lon lat =
     (let zone = best_utm_zone lon
      in if lat \<ge> 0 then 32600 + zone else 32700 + zone)"

section \<open>make_Grid.py: anchoring the grid on the bounding box\<close>

text \<open>
  Lines 81--85 of \<^verbatim>\<open>main\<close>. \<^verbatim>\<open>CELL\<close> is a local constant (100.0) of the
  script; it is a parameter here. Float division by zero raises ZeroDivisionError.
  \<^verbatim>\<open>math.floor\<close> and \<^verbatim>\<open>math.ceil\<close> return ints; the product of an int and a
  float, the difference and the quotients are float operations.
\<close>

definition CELL_default :: real where
  "CELL_default = 100"

definition py_truediv :: "real \<Rightarrow> real \<Rightarrow> py_error + real" where
  "py_truediv a b = (if b = 0 then Inl ZeroDivisionError else Inr (double_round (a / b)))"

definition grid_extent ::
  "real \<Rightarrow> real \<times> real \<times> real \<times> real \<Rightarrow> py_error + (real \<times> real \<times> int \<times> int)" where
  "grid_extent CELL bnds =
     (case bnds of (minx, miny, maxx, maxy) \<Rightarrow>
      (case py_truediv minx CELL of Inl e \<Rightarrow> Inl e | Inr qx \<Rightarrow>
       let start_x = float_mul (of_int \<lfloor>qx\<rfloor>) CELL in
      (case py_truediv miny CELL of Inl e \<Rightarrow> Inl e | Inr qy \<Rightarrow>
       let start_y = float_mul (of_int \<lfloor>qy\<rfloor>) CELL in
      (case py_truediv (float_sub maxx start_x) CELL of Inl e \<Rightarrow> Inl e | Inr wx \<Rightarrow>
       let cols = \<lceil>wx\<rceil> in
      (case py_truediv (float_sub maxy start_y) CELL of Inl e \<Rightarrow> Inl e | Inr wy \<Rightarrow>
       let rows = \<lceil>wy\<rceil> in
       Inr (start_x, start_y, cols, rows))))))"

text \<open>\<^verbatim>\<open>range(n)\<close>: the integers 0 .. n-1, empty when n is not positive.\<close>

definition py_range :: "int \<Rightarrow> int list" where
  "py_range n = [0..n - 1]"

section \<open>make_Grid.py: geometries and the geometry library\<close>

text \<open>
  Geometries as the script sees them: it tells Polygon and MultiPolygon from every other
  kind (\<^verbatim>\<open>isinstance\<close>), reads the exterior ring and the interior rings of a
  polygon, and the parts of a multi-polygon.
\<close>

type_synonym coord = "real \<times> real"
type_synonym ring = "coord list"

datatype geometry =
    Polygon ring "ring list"
  | MultiPolygon "geometry list"
  | LineString ring
  | PointG coord
  | GeometryCollection "geometry list"

text \<open>
  What the script calls in shapely and pyproj and does not implement itself:
  the centroid, the bounds, the prepared \<^verbatim>\<open>intersects\<close> test (AOI first, square second),
  \<^verbatim>\<open>cell.intersection(aoi_m)\<close> (square first), \<^verbatim>\<open>is_empty\<close>, \<^verbatim>\<open>area\<close>, and
  the coordinate transformer between two EPSG codes.
\<close>

record geom_lib =
  centroid :: "geometry \<Rightarrow> coord"
  bounds :: "geometry \<Rightarrow> real \<times> real \<times> real \<times> real"
  intersects :: "geometry \<Rightarrow> geometry \<Rightarrow> bool"
  intersection :: "geometry \<Rightarrow> geometry \<Rightarrow> geometry"
  is_empty :: "geometry \<Rightarrow> bool"
  area :: "geometry \<Rightarrow> real"
  transformer :: "int \<Rightarrow> int \<Rightarrow> coord \<Rightarrow> coord"

text \<open>
  \<^verbatim>\<open>box(minx, miny, maxx, maxy)\<close>: the rectangle as a polygon, counter-clockwise from
  the lower right corner.
\<close>

definition box :: "real \<Rightarrow> real \<Rightarrow> real \<Rightarrow> real \<Rightarrow> geometry" where
  "box minx miny maxx maxy =
     Polygon [(maxx, miny), (maxx, maxy), (minx, maxy), (minx, miny), (maxx, miny)] []"

text \<open>
  \<^verbatim>\<open>transformer.transform(*zip(*ring.coords))\<close> transforms a ring point by point. With
  an empty ring the call has no arguments at all and Python raises TypeError.
\<close>

definition transform_ring :: "(coord \<Rightarrow> coord) \<Rightarrow> ring \<Rightarrow> py_error + ring" where
  "transform_ring tr cs = (if cs = [] then Inl TypeError else Inr (map tr cs))"

fun transform_rings :: "(coord \<Rightarrow> coord) \<Rightarrow> ring list \<Rightarrow> py_error + ring list" where
  "transform_rings tr [] = Inr []"
| "transform_rings tr (r # rs) =
     (case transform_ring tr r of Inl e \<Rightarrow> Inl e | Inr r' \<Rightarrow>
      (case transform_rings tr rs of Inl e \<Rightarrow> Inl e | Inr rs' \<Rightarrow> Inr (r' # rs')))"

fun project_poly :: "(coord \<Rightarrow> coord) \<Rightarrow> geometry \<Rightarrow> py_error + geometry"
  and project_polys :: "(coord \<Rightarrow> coord) \<Rightarrow> geometry list \<Rightarrow> py_error + geometry list" where
  "project_poly tr (Polygon ext ints) =
     (case transform_ring tr ext of Inl e \<Rightarrow> Inl e | Inr ext' \<Rightarrow>
      (case transform_rings tr ints of Inl e \<Rightarrow> Inl e | Inr ints' \<Rightarrow>
       Inr (Polygon ext' ints')))"
| "project_poly tr (MultiPolygon ps) =
     (case project_polys tr ps of Inl e \<Rightarrow> Inl e | Inr qs \<Rightarrow> Inr (MultiPolygon qs))"
| "project_poly tr (LineString cs) = Inl TypeError"
| "project_poly tr (PointG p) = Inl TypeError"
| "project_poly tr (GeometryCollection gs) = Inl TypeError"
| "project_polys tr [] = Inr []"
| "project_polys tr (p # ps) =
     (case project_poly tr p of Inl e \<Rightarrow> Inl e | Inr q \<Rightarrow>
      (case project_polys tr ps of Inl e \<Rightarrow> Inl e | Inr qs \<Rightarrow> Inr (q # qs)))"

text \<open>\<^verbatim>\<open>to_wgs_geom\<close> has the same body as \<^verbatim>\<open>project_poly\<close>.\<close>

fun to_wgs_geom :: "(coord \<Rightarrow> coord) \<Rightarrow> geometry \<Rightarrow> py_error + geometry"
  and to_wgs_geoms :: "(coord \<Rightarrow> coord) \<Rightarrow> geometry list \<Rightarrow> py_error + geometry list" where
  "to_wgs_geom tr (Polygon ext ints) =
     (case transform_ring tr ext of Inl e \<Rightarrow> Inl e | Inr ext' \<Rightarrow>
      (case transform_rings tr ints of Inl e \<Rightarrow> Inl e | Inr ints' \<Rightarrow>
       Inr (Polygon ext' ints')))"
| "to_wgs_geom tr (MultiPolygon ps) =
     (case to_wgs_geoms tr ps of Inl e \<Rightarrow> Inl e | Inr qs \<Rightarrow> Inr (MultiPolygon qs))"
| "to_wgs_geom tr (LineString cs) = Inl TypeError"
| "to_wgs_geom tr (PointG p) = Inl TypeError"
| "to_wgs_geom tr (GeometryCollection gs) = Inl TypeError"
| "to_wgs_geoms tr [] = Inr []"
| "to_wgs_geoms tr (p # ps) =
     (case to_wgs_geom tr p of Inl e \<Rightarrow> Inl e | Inr q \<Rightarrow>
      (case to_wgs_geoms tr ps of Inl e \<Rightarrow> Inl e | Inr qs \<Rightarrow> Inr (q # qs)))"

section \<open>make_Grid.py: the scan over rows and columns\<close>

text \<open>
  A feature of either output collection. \<open>utm_crs\<close> is the EPSG code of the planar system
  in the metric collection and absent in the geographic one.
\<close>

record feature =
  cell_id :: int
  row :: int
  col :: int
  utm_crs :: "int option"
  area_m2 :: real
  geometry :: geometry

text \<open>The square footprint of row r, column c (lines 95, 97 and 98).\<close>

definition cell_box :: "real \<Rightarrow> real \<Rightarrow> real \<Rightarrow> int \<Rightarrow> int \<Rightarrow> geometry" where
  "cell_box CELL start_x start_y r c =
     (let y0 = float_add start_y (float_mul (of_int r) CELL);
          x0 = float_add start_x (float_mul (of_int c) CELL)
      in box x0 y0 (float_add x0 CELL) (float_add y0 CELL))"

text \<open>
  The body of the inner loop (lines 97--118) for one column: \<open>Inr None\<close> is
  \<^verbatim>\<open>continue\<close>, \<open>Inr (Some (f, g))\<close> the two features appended, \<open>Inl e\<close> an exception.
\<close>

definition visit_cell ::
  "geom_lib \<Rightarrow> (coord \<Rightarrow> coord) \<Rightarrow> int \<Rightarrow> geometry \<Rightarrow> real \<Rightarrow> real \<Rightarrow> real \<Rightarrow> int \<Rightarrow> int \<Rightarrow> int
     \<Rightarrow> py_error + (feature \<times> feature) option" where
  "visit_cell lib to_wgs utm aoi_m CELL start_x start_y cid r c =
     (let cell = cell_box CELL start_x start_y r c in
      if \<not> intersects lib aoi_m cell then Inr None
      else
        let inter = intersection lib cell aoi_m in
        if is_empty lib inter then Inr None
        else
          (case to_wgs_geom to_wgs inter of
             Inl e \<Rightarrow> Inl e
           | Inr inter_w \<Rightarrow>
               Inr (Some
                 (\<lparr>cell_id = cid, row = r, col = c, utm_crs = Some utm,
                    area_m2 = area lib inter, geometry = inter\<rparr>,
                  \<lparr>cell_id = cid, row = r, col = c, utm_crs = None,
                    area_m2 = area lib inter, geometry = inter_w\<rparr>))))"

text \<open>
  The loop state is \<open>(features_metric, features_wgs84, cell_id)\<close>. \<open>scan_cols\<close> is the
  inner \<^verbatim>\<open>for c in range(cols)\<close>, \<open>scan_rows\<close> the outer \<^verbatim>\<open>for r in range(rows)\<close>.
\<close>

type_synonym scan_state = "feature list \<times> feature list \<times> int"

fun scan_cols ::
  "geom_lib \<Rightarrow> (coord \<Rightarrow> coord) \<Rightarrow> int \<Rightarrow> geometry \<Rightarrow> real \<Rightarrow> real \<Rightarrow> real \<Rightarrow> int \<Rightarrow> int list
     \<Rightarrow> scan_state \<Rightarrow> py_error + scan_state" where
  "scan_cols lib to_wgs utm aoi_m CELL start_x start_y r [] st = Inr st"
| "scan_cols lib to_wgs utm aoi_m CELL start_x start_y r (c # cs) (features_metric, features_wgs84, cid) =
     (case visit_cell lib to_wgs utm aoi_m CELL start_x start_y cid r c of
        Inl e \<Rightarrow> Inl e
      | Inr None \<Rightarrow>
          scan_cols lib to_wgs utm aoi_m CELL start_x start_y r cs
            (features_metric, features_wgs84, cid)
      | Inr (Some (f, g)) \<Rightarrow>
          scan_cols lib to_wgs utm aoi_m CELL start_x start_y r cs
            (features_metric @ [f], features_wgs84 @ [g], cid + 1))"

fun scan_rows ::
  "geom_lib \<Rightarrow> (coord \<Rightarrow> coord) \<Rightarrow> int \<Rightarrow> geometry \<Rightarrow> real \<Rightarrow> real \<Rightarrow> real \<Rightarrow> int list \<Rightarrow> int list
     \<Rightarrow> scan_state \<Rightarrow> py_error + scan_state" where
  "scan_rows lib to_wgs utm aoi_m CELL start_x start_y [] cs st = Inr st"
| "scan_rows lib to_wgs utm aoi_m CELL start_x start_y (r # rs) cs st =
     (case scan_cols lib to_wgs utm aoi_m CELL start_x start_y r cs st of
        Inl e \<Rightarrow> Inl e
      | Inr st' \<Rightarrow> scan_rows lib to_wgs utm aoi_m CELL start_x start_y rs cs st')"

text \<open>
  Lines 81--118: the grid over a projected AOI. The result is the pair of feature
  lists the script then writes out as two FeatureCollections.
\<close>

definition build_grid ::
  "geom_lib \<Rightarrow> (coord \<Rightarrow> coord) \<Rightarrow> int \<Rightarrow> real \<Rightarrow> geometry \<Rightarrow> py_error + (feature list \<times> feature list)" where
  "build_grid lib to_wgs utm CELL aoi_m =
     (case grid_extent CELL (bounds lib aoi_m) of
        Inl e \<Rightarrow> Inl e
      | Inr (start_x, start_y, cols, rows) \<Rightarrow>
          (case scan_rows lib to_wgs utm aoi_m CELL start_x start_y
                  (py_range rows) (py_range cols) ([], [], 0) of
             Inl e \<Rightarrow> Inl e
           | Inr (features_metric, features_wgs84, cid) \<Rightarrow>
               Inr (features_metric, features_wgs84)))"

text \<open>
  \<^verbatim>\<open>main\<close> from the loaded AOI on (lines 70--118): centroid, zone, the two
  transformers, projection, grid.
\<close>

definition main_utm :: "geom_lib \<Rightarrow> geometry \<Rightarrow> int" where
  "main_utm lib aoi_wgs = (let cent = centroid lib aoi_wgs in best_utm (fst cent) (snd cent))"

definition main :: "geom_lib \<Rightarrow> real \<Rightarrow> geometry \<Rightarrow> py_error + (feature list \<times> feature list)" where
  "main lib CELL aoi_wgs =
     (let utm = main_utm lib aoi_wgs;
          to_utm = transformer lib 4326 utm;
          to_wgs = transformer lib utm 4326
      in case project_poly to_utm aoi_wgs of
           Inl e \<Rightarrow> Inl e
         | Inr aoi_m \<Rightarrow> build_grid lib to_wgs utm CELL aoi_m)"

text \<open>
  Row-major scan order on features: earlier row, or same row and earlier column.
\<close>

definition scan_before :: "feature \<Rightarrow> feature \<Rightarrow> bool" where
  "scan_before f g \<longleftrightarrow> row f < row g \<or> (row f = row g \<and> col f < col g)"

text \<open>
  What is said of an emitted feature: its geometry is the clip of its square footprint
  against the projected AOI, the clip is not empty, and the footprint meets the AOI.
\<close>

definition clipped_ok :: "geom_lib \<Rightarrow> geometry \<Rightarrow> real \<Rightarrow> real \<Rightarrow> real \<Rightarrow> feature \<Rightarrow> bool" where
  "clipped_ok lib aoi_m CELL start_x start_y f \<longleftrightarrow>
     geometry f = intersection lib (cell_box CELL start_x start_y (row f) (col f)) aoi_m \<and>
     \<not> is_empty lib (geometry f) \<and>
     intersects lib aoi_m (cell_box CELL start_x start_y (row f) (col f))"

text \<open>A point of the plane lies in the closed square of row r, column c.\<close>

definition in_square :: "real \<Rightarrow> real \<Rightarrow> real \<Rightarrow> int \<Rightarrow> int \<Rightarrow> coord \<Rightarrow> bool" where
  "in_square CELL start_x start_y r c p \<longleftrightarrow>
     start_x + of_int c * CELL \<le> fst p \<and> fst p \<le> start_x + of_int c * CELL + CELL \<and>
     start_y + of_int r * CELL \<le> snd p \<and> snd p \<le> start_y + of_int r * CELL + CELL"

section \<open>A geometry library for axis-aligned rectangles\<close>

text \<open>
  An instance of the library interface on which the model can be run: it is exact on
  rectangles built by \<open>box\<close> (two closed rectangles meet when their intervals overlap,
  their intersection is the overlap rectangle, a segment or a point when they only
  touch), and treats everything else as empty. The transformer scales degrees to
  metres by 100000 and back.
\<close>

definition rect_of :: "geometry \<Rightarrow> (real \<times> real \<times> real \<times> real) option" where
  "rect_of g =
     (case g of
        Polygon [p1, p2, p3, p4, p5] [] \<Rightarrow> Some (fst p3, snd p1, fst p1, snd p2)
      | _ \<Rightarrow> None)"

definition rect_overlap ::
  "geometry \<Rightarrow> geometry \<Rightarrow> (real \<times> real \<times> real \<times> real) option" where
  "rect_overlap a b =
     (case rect_of a of None \<Rightarrow> None | Some (a0, b0, a1, b1) \<Rightarrow>
      (case rect_of b of None \<Rightarrow> None | Some (c0, d0, c1, d1) \<Rightarrow>
       if max a0 c0 \<le> min a1 c1 \<and> max b0 d0 \<le> min b1 d1
       then Some (max a0 c0, max b0 d0, min a1 c1, min b1 d1) else None))"

definition rect_intersection :: "geometry \<Rightarrow> geometry \<Rightarrow> geometry" where
  "rect_intersection a b =
     (case rect_overlap a b of
        None \<Rightarrow> Polygon [] []
      | Some (x0, y0, x1, y1) \<Rightarrow>
          if x0 < x1 \<and> y0 < y1 then box x0 y0 x1 y1
          else if x0 = x1 \<and> y0 = y1 then PointG (x0, y0)
          else LineString [(x0, y0), (x1, y1)])"

definition rect_lib :: geom_lib where
  "rect_lib =
     \<lparr>centroid = (\<lambda>g. case rect_of g of None \<Rightarrow> (0, 0)
                      | Some (x0, y0, x1, y1) \<Rightarrow> ((x0 + x1) / 2, (y0 + y1) / 2)),
      bounds = (\<lambda>g. case rect_of g of None \<Rightarrow> (0, 0, 0, 0) | Some b \<Rightarrow> b),
      intersects = (\<lambda>a b. rect_overlap a b \<noteq> None),
      intersection = rect_intersection,
      is_empty = (\<lambda>g. g = Polygon [] []),
      area = (\<lambda>g. case rect_of g of None \<Rightarrow> 0 | Some (x0, y0, x1, y1) \<Rightarrow> (x1 - x0) * (y1 - y0)),
      transformer = (\<lambda>src dst p.
         if src = 4326 then (fst p * 100000, snd p * 100000)
         else (fst p / 100000, snd p / 100000))\<rparr>"

text \<open>
  A run used below: a rectangle of 0.002 by 0.001 degrees at the origin, 200 m by 100 m
  in the plane, with cells of 100 m. It has two cells, both full squares.
\<close>

definition demo_aoi :: geometry where
  "demo_aoi = box 0 0 (2 / 1000) (1 / 1000)"

definition demo_cells :: "feature list" where
  "demo_cells =
     [\<lparr>cell_id = 0, row = 0, col = 0, utm_crs = Some 32631, area_m2 = 10000,
       geometry = box 0 0 100 100\<rparr>,
      \<lparr>cell_id = 1, row = 0, col = 1, utm_crs = Some 32631, area_m2 = 10000,
       geometry = box 100 0 200 100\<rparr>]"

definition demo_cells_wgs84 :: "feature list" where
  "demo_cells_wgs84 =
     [\<lparr>cell_id = 0, row = 0, col = 0, utm_crs = None, area_m2 = 10000,
       geometry = box 0 0 (1 / 1000) (1 / 1000)\<rparr>,
      \<lparr>cell_id = 1, row = 0, col = 1, utm_crs = None, area_m2 = 10000,
       geometry = box (1 / 1000) 0 (2 / 1000) (1 / 1000)\<rparr>]"

section \<open>A geometry library for unions of rectangles\<close>

text \<open>
  A second instance, exact on multi-polygons whose parts are rectangles built by \<open>box\<close>
  and do not overlap: the geometry is the list of its rectangles, two geometries meet
  when two of their rectangles overlap, and the intersection is made of the overlaps.
  The centroid is weighted by area.
\<close>

type_synonym rect = "real \<times> real \<times> real \<times> real"

fun rects_of :: "geometry \<Rightarrow> rect list" where
  "rects_of (MultiPolygon ps) = concat (map rects_of ps)"
| "rects_of (Polygon ext ints) = (case rect_of (Polygon ext ints) of None \<Rightarrow> [] | Some r \<Rightarrow> [r])"
| "rects_of (LineString cs) = []"
| "rects_of (PointG p) = []"
| "rects_of (GeometryCollection gs) = []"

definition clip_rect :: "rect \<Rightarrow> rect \<Rightarrow> rect option" where
  "clip_rect a b =
     (case a of (a0, b0, a1, b1) \<Rightarrow>
      (case b of (c0, d0, c1, d1) \<Rightarrow>
       if max a0 c0 \<le> min a1 c1 \<and> max b0 d0 \<le> min b1 d1
       then Some (max a0 c0, max b0 d0, min a1 c1, min b1 d1) else None))"

definition clips :: "geometry \<Rightarrow> geometry \<Rightarrow> rect list" where
  "clips a b = List.map_filter (\<lambda>p. clip_rect (fst p) (snd p)) (List.product (rects_of a) (rects_of b))"

definition rect_geometry :: "rect \<Rightarrow> geometry" where
  "rect_geometry r =
     (case r of (x0, y0, x1, y1) \<Rightarrow>
        if x0 < x1 \<and> y0 < y1 then box x0 y0 x1 y1
        else if x0 = x1 \<and> y0 = y1 then PointG (x0, y0)
        else LineString [(x0, y0), (x1, y1)])"

definition rect_area :: "rect \<Rightarrow> real" where
  "rect_area r = (case r of (x0, y0, x1, y1) \<Rightarrow> (x1 - x0) * (y1 - y0))"

definition rects_bounds :: "rect list \<Rightarrow> rect" where
  "rects_bounds rs =
     (case rs of
        [] \<Rightarrow> (0, 0, 0, 0)
      | r # rs' \<Rightarrow>
          foldl (\<lambda>acc q. (min (fst acc) (fst q), min (fst (snd acc)) (fst (snd q)),
                           max (fst (snd (snd acc))) (fst (snd (snd q))),
                           max (snd (snd (snd acc))) (snd (snd (snd q))))) r rs')"

definition rects_centroid :: "rect list \<Rightarrow> coord" where
  "rects_centroid rs =
     (let total = sum_list (map rect_area rs) in
      if total = 0 then (0, 0)
      else (sum_list (map (\<lambda>r. rect_area r * ((fst r + fst (snd (snd r))) / 2)) rs) / total,
            sum_list (map (\<lambda>r. rect_area r * ((fst (snd r) + snd (snd (snd r))) / 2)) rs) / total))"

definition multi_rect_lib :: geom_lib where
  "multi_rect_lib =
     \<lparr>centroid = (\<lambda>g. rects_centroid (rects_of g)),
      bounds = (\<lambda>g. rects_bounds (rects_of g)),
      intersects = (\<lambda>a b. clips a b \<noteq> []),
      intersection = (\<lambda>a b.
         case clips a b of
           [] \<Rightarrow> Polygon [] []
         | [r] \<Rightarrow> rect_geometry r
         | r # rs \<Rightarrow> GeometryCollection (map rect_geometry (r # rs))),
      is_empty = (\<lambda>g. g = Polygon [] []),
      area = (\<lambda>g. sum_list (map rect_area (rects_of g))),
      transformer = (\<lambda>src dst p.
         if src = 4326 then (fst p * 100000, snd p * 100000)
         else (fst p / 100000, snd p / 100000))\<rparr>"

text \<open>
  A run with two rows: the AOI is a small rectangle inside the square of row 0, column 0
  and a larger one across columns 1 and 2 of row 1 (in the plane, metres:
  50..75 by 50..75 and 125..250 by 125..175). Of the six squares three miss the AOI
  and are skipped, and every emitted cell is clipped.
\<close>

definition demo2_aoi :: geometry where
  "demo2_aoi =
     MultiPolygon [box (50 / 100000) (50 / 100000) (75 / 100000) (75 / 100000),
                   box (125 / 100000) (125 / 100000) (250 / 100000) (175 / 100000)]"

definition demo2_aoi_m :: geometry where
  "demo2_aoi_m = MultiPolygon [box 50 50 75 75, box 125 125 250 175]"

definition demo2_cells :: "feature list" where
  "demo2_cells =
     [\<lparr>cell_id = 0, row = 0, col = 0, utm_crs = Some 32631, area_m2 = 625,
       geometry = box 50 50 75 75\<rparr>,
      \<lparr>cell_id = 1, row = 1, col = 1, utm_crs = Some 32631, area_m2 = 3750,
       geometry = box 125 125 200 175\<rparr>,
      \<lparr>cell_id = 2, row = 1, col = 2, utm_crs = Some 32631, area_m2 = 2500,
       geometry = box 200 125 250 175\<rparr>]"

definition demo2_cells_wgs84 :: "feature list" where
  "demo2_cells_wgs84 =
     [\<lparr>cell_id = 0, row = 0, col = 0, utm_crs = None, area_m2 = 625,
       geometry = box (50 / 100000) (50 / 100000) (75 / 100000) (75 / 100000)\<rparr>,
      \<lparr>cell_id = 1, row = 1, col = 1, utm_crs = None, area_m2 = 3750,
       geometry = box (125 / 100000) (125 / 100000) (200 / 100000) (175 / 100000)\<rparr>,
      \<lparr>cell_id = 2, row = 1, col = 2, utm_crs = None, area_m2 = 2500,
       geometry = box (200 / 100000) (125 / 100000) (250 / 100000) (175 / 100000)\<rparr>]"

section \<open>agents_to_cell_csvs.py: names and paths\<close>

text \<open>
  \<^verbatim>\<open>f"cell_{cell_id}"\<close> and \<^verbatim>\<open>f"visits_bucket{args.bucket_id}.csv"\<close> print an int in
  decimal, with a minus sign when it is negative.
\<close>

definition digit_char :: "nat \<Rightarrow> char" where
  "digit_char d = ''0123456789'' ! d"

fun str_nat :: "nat \<Rightarrow> string" where
  "str_nat n = (if n < 10 then [digit_char n] else str_nat (n div 10) @ [digit_char (n mod 10)])"

declare str_nat.simps [simp del]

definition str_int :: "int \<Rightarrow> string" where
  "str_int i = (if i < 0 then CHR ''-'' # str_nat (nat (- i)) else str_nat (nat i))"

text \<open>
  Paths are lists of components; \<^verbatim>\<open>a / b\<close> appends one component.
\<close>

type_synonym path = "string list"

record agent_args =
  out_root :: path
  bucket_id :: int
  grid_id_field :: string
  agent_id_field :: string
  latitude_field :: string
  longitude_field :: string
  output_filename :: "string option"

text \<open>
  Line 134: \<^verbatim>\<open>args.output_filename or f"visits_bucket{args.bucket_id}.csv"\<close>; a missing
  and an empty file name both give the default.
\<close>

definition out_name :: "agent_args \<Rightarrow> string" where
  "out_name args =
     (case output_filename args of
        None \<Rightarrow> ''visits_bucket'' @ str_int (bucket_id args) @ ''.csv''
      | Some s \<Rightarrow> if s = [] then ''visits_bucket'' @ str_int (bucket_id args) @ ''.csv'' else s)"

definition cell_folder :: "agent_args \<Rightarrow> int \<Rightarrow> path" where
  "cell_folder args cid = out_root args @ [''cell_'' @ str_int cid]"

definition out_csv :: "agent_args \<Rightarrow> int \<Rightarrow> path" where
  "out_csv args cid = cell_folder args cid @ [out_name args]"

section \<open>agents_to_cell_csvs.py: tables\<close>

text \<open>
  A row of the trajectory table: the values under the configured agent, latitude and
  longitude columns and under the time column that \<^verbatim>\<open>find_time_column\<close> picks. The
  column names are kept beside the rows, for the checks on them.
\<close>

record ('a, 't) point =
  agent :: 'a
  timestamp :: 't
  latitude :: real
  longitude :: real

record ('a, 't) data_frame =
  df_columns :: "string list"
  df_rows :: "('a, 't) point list"

text \<open>A row of the grid table: its integer attributes by column name, and its polygon.\<close>

record grid_row =
  attrs :: "string \<Rightarrow> int"
  shape :: geometry

record grid_frame =
  grid_columns :: "string list"
  grid_rows :: "grid_row list"

definition find_time_column :: "string list \<Rightarrow> py_error + string" where
  "find_time_column cols =
     (case filter (\<lambda>cand. cand \<in> set cols) [''timestamp'', ''time'', ''datetime'', ''date_time'', ''ts''] of
        [] \<Rightarrow> Inl ValueError
      | cand # _ \<Rightarrow> Inr cand)"

text \<open>
  A line of a CSV file: the header with the column names, or a data row in the order of
  \<^verbatim>\<open>out_cols\<close>: agent, latitude, longitude, time, cell_id, bucket_id.
\<close>

datatype ('a, 't) csv_line = Header "string list" | Data 'a real real 't int int

fun is_header :: "('a, 't) csv_line \<Rightarrow> bool" where
  "is_header (Header cols) = True"
| "is_header (Data a la lo t c b) = False"

definition header_count :: "('a, 't) csv_line list \<Rightarrow> nat" where
  "header_count ls = length (filter is_header ls)"

fun data_times :: "('a, 't) csv_line list \<Rightarrow> 't list" where
  "data_times [] = []"
| "data_times (Header cols # ls) = data_times ls"
| "data_times (Data a la lo t c b # ls) = t # data_times ls"

section \<open>agents_to_cell_csvs.py: the file system\<close>

text \<open>
  The directories that exist and the CSV files with their lines.
  \<^verbatim>\<open>mkdir(parents=True, exist_ok=True)\<close> creates the path with every missing ancestor
  and fails when the path or an ancestor is a file. \<^verbatim>\<open>to_csv(mode="a", header=h)\<close>
  appends the header line, if asked, and the rows; it creates the file when there is
  none and fails on a directory. (The script creates the folder before it writes.)
\<close>

record ('a, 't) file_system =
  dirs :: "path set"
  files :: "path \<Rightarrow> ('a, 't) csv_line list option"

definition path_exists :: "('a, 't) file_system \<Rightarrow> path \<Rightarrow> bool" where
  "path_exists fs p \<longleftrightarrow> p \<in> dirs fs \<or> files fs p \<noteq> None"

definition mkdir_parents :: "('a, 't) file_system \<Rightarrow> path \<Rightarrow> py_error + ('a, 't) file_system" where
  "mkdir_parents fs p =
     (if list_ex (\<lambda>q. files fs q \<noteq> None) (prefixes p) then Inl FileExistsError
      else Inr (fs\<lparr>dirs := dirs fs \<union> set (prefixes p)\<rparr>))"

definition to_csv_append ::
  "('a, 't) file_system \<Rightarrow> path \<Rightarrow> bool \<Rightarrow> string list \<Rightarrow> ('a, 't) csv_line list
     \<Rightarrow> py_error + ('a, 't) file_system" where
  "to_csv_append fs p write_header cols lines =
     (if p \<in> dirs fs then Inl IsADirectoryError
      else Inr (fs\<lparr>files := (files fs)(p \<mapsto>
                  (case files fs p of None \<Rightarrow> [] | Some old \<Rightarrow> old)
                  @ (if write_header then [Header cols] else []) @ lines)\<rparr>))"

section \<open>agents_to_cell_csvs.py: join, groups and the write loop\<close>

text \<open>
  \<^verbatim>\<open>gpd.sjoin(pts, grid, predicate="within", how="inner")\<close>: one row for every pair of a
  point and a grid row whose polygon the point is within. The predicate is the
  library's; \<open>reproject\<close> is the change of the points to the CRS of the grid (the
  identity when both are WGS84).
\<close>

definition point_xy :: "(coord \<Rightarrow> coord) \<Rightarrow> ('a, 't) point \<Rightarrow> coord" where
  "point_xy reproject p = reproject (longitude p, latitude p)"

definition sjoin ::
  "(coord \<Rightarrow> geometry \<Rightarrow> bool) \<Rightarrow> (coord \<Rightarrow> coord) \<Rightarrow> ('a, 't) point list \<Rightarrow> grid_row list
     \<Rightarrow> (('a, 't) point \<times> grid_row) list" where
  "sjoin is_within reproject pts grid =
     concat (map (\<lambda>p. map (Pair p) (filter (\<lambda>g. is_within (point_xy reproject p) (shape g)) grid)) pts)"

text \<open>
  \<^verbatim>\<open>joined.groupby("cell_id", sort=True)\<close>: the distinct cell ids in ascending order,
  each with its rows in the order of the join.
\<close>

definition groupby_cell_id ::
  "string \<Rightarrow> (('a, 't) point \<times> grid_row) list \<Rightarrow> (int \<times> ('a, 't) point list) list" where
  "groupby_cell_id id_field joined =
     map (\<lambda>k. (k, map fst (filter (\<lambda>j. attrs (snd j) id_field = k) joined)))
       (sort (remdups (map (\<lambda>j. attrs (snd j) id_field) joined)))"

definition out_cols :: "agent_args \<Rightarrow> string \<Rightarrow> string list" where
  "out_cols args time_col =
     [agent_id_field args, latitude_field args, longitude_field args, time_col,
      ''cell_id'', ''bucket_id'']"

text \<open>
  The block of lines one group contributes (lines 145--147): the rows of the group with
  the cell id and the bucket id attached, sorted by the time column.
\<close>

definition out_df :: "agent_args \<Rightarrow> int \<Rightarrow> ('a, 't :: linorder) point list \<Rightarrow> ('a, 't) csv_line list" where
  "out_df args cid sub =
     map (\<lambda>p. Data (agent p) (latitude p) (longitude p) (timestamp p) cid (bucket_id args))
       (sort_key timestamp sub)"

text \<open>
  The body of the write loop (lines 141--150). The result is the file system when the
  body ends and the exception that ended it, if any.
\<close>

definition write_cell ::
  "agent_args \<Rightarrow> string \<Rightarrow> ('a, 't :: linorder) file_system \<Rightarrow> int \<times> ('a, 't) point list
     \<Rightarrow> ('a, 't) file_system \<times> py_error option" where
  "write_cell args time_col fs grp =
     (case mkdir_parents fs (cell_folder args (fst grp)) of
        Inl e \<Rightarrow> (fs, Some e)
      | Inr fs1 \<Rightarrow>
          let write_header = \<not> path_exists fs1 (out_csv args (fst grp)) in
          (case to_csv_append fs1 (out_csv args (fst grp)) write_header (out_cols args time_col)
                  (out_df args (fst grp) (snd grp)) of
             Inl e \<Rightarrow> (fs1, Some e)
           | Inr fs2 \<Rightarrow> (fs2, None)))"

fun write_groups ::
  "agent_args \<Rightarrow> string \<Rightarrow> (int \<times> ('a, 't :: linorder) point list) list \<Rightarrow> ('a, 't) file_system
     \<Rightarrow> ('a, 't) file_system \<times> py_error option" where
  "write_groups args time_col [] fs = (fs, None)"
| "write_groups args time_col (grp # grps) fs =
     (case write_cell args time_col fs grp of
        (fs', Some e) \<Rightarrow> (fs', Some e)
      | (fs', None) \<Rightarrow> write_groups args time_col grps fs')"

text \<open>
  \<^verbatim>\<open>main\<close> of agents_to_cell_csvs.py from the loaded tables on (lines 89--153): the
  checks on the columns, the join, the early return on an empty join, and the write
  loop.
\<close>

definition joined_rows ::
  "(coord \<Rightarrow> geometry \<Rightarrow> bool) \<Rightarrow> (coord \<Rightarrow> coord) \<Rightarrow> grid_frame \<Rightarrow> ('a, 't) data_frame
     \<Rightarrow> (('a, 't) point \<times> grid_row) list" where
  "joined_rows is_within reproject grid df = sjoin is_within reproject (df_rows df) (grid_rows grid)"

definition agents_main ::
  "(coord \<Rightarrow> geometry \<Rightarrow> bool) \<Rightarrow> (coord \<Rightarrow> coord) \<Rightarrow> agent_args \<Rightarrow> grid_frame
     \<Rightarrow> ('a, 't :: linorder) data_frame \<Rightarrow> ('a, 't) file_system
     \<Rightarrow> ('a, 't) file_system \<times> py_error option" where
  "agents_main is_within reproject args grid df fs =
     (if grid_id_field args \<notin> set (grid_columns grid) then (fs, Some KeyError)
      else if \<not> list_all (\<lambda>c. c \<in> set (df_columns df))
                  [agent_id_field args, latitude_field args, longitude_field args]
      then (fs, Some KeyError)
      else
        (case find_time_column (df_columns df) of
           Inl e \<Rightarrow> (fs, Some e)
         | Inr time_col \<Rightarrow>
             let joined = joined_rows is_within reproject grid df in
             if joined = [] then (fs, None)
             else
               (case mkdir_parents fs (out_root args) of
                  Inl e \<Rightarrow> (fs, Some e)
                | Inr fs1 \<Rightarrow>
                    write_groups args time_col
                      (groupby_cell_id (grid_id_field args) joined) fs1)))"

text \<open>The script run several times in a row, each run with its own arguments and tables.\<close>

fun agents_main_runs ::
  "(coord \<Rightarrow> geometry \<Rightarrow> bool) \<Rightarrow> (coord \<Rightarrow> coord)
     \<Rightarrow> (agent_args \<times> grid_frame \<times> ('a, 't :: linorder) data_frame) list
     \<Rightarrow> ('a, 't) file_system \<Rightarrow> ('a, 't) file_system" where
  "agents_main_runs is_within reproject [] fs = fs"
| "agents_main_runs is_within reproject ((args, grid, df) # runs) fs =
     agents_main_runs is_within reproject runs (fst (agents_main is_within reproject args grid df fs))"

text \<open>Every CSV file that exists holds exactly one header line.\<close>

definition one_header_each :: "('a, 't) file_system \<Rightarrow> bool" where
  "one_header_each fs \<longleftrightarrow> (\<forall>p ls. files fs p = Some ls \<longrightarrow> header_count ls = 1)"

text \<open>Strict containment of a point in the open square of row r, column c.\<close>

definition strictly_in_square :: "real \<Rightarrow> real \<Rightarrow> real \<Rightarrow> int \<Rightarrow> int \<Rightarrow> coord \<Rightarrow> bool" where
  "strictly_in_square CELL start_x start_y r c p \<longleftrightarrow>
     start_x + of_int c * CELL < fst p \<and> fst p < start_x + of_int c * CELL + CELL \<and>
     start_y + of_int r * CELL < snd p \<and> snd p < start_y + of_int r * CELL + CELL"

text \<open>
  The strict point-in-polygon rule, for a grid whose rows carry the attributes row and
  col of make_Grid.py: a point that is within the polygon of a grid row lies strictly
  inside the square footprint of that row.
\<close>

definition strict_within_rule ::
  "(coord \<Rightarrow> geometry \<Rightarrow> bool) \<Rightarrow> real \<Rightarrow> real \<Rightarrow> real \<Rightarrow> grid_row list \<Rightarrow> bool" where
  "strict_within_rule is_within CELL start_x start_y grid \<longleftrightarrow>
     (\<forall>g \<in> set grid. \<forall>q. is_within q (shape g) \<longrightarrow>
        strictly_in_square CELL start_x start_y (attrs g ''row'') (attrs g ''col'') q)"

text \<open>Strict containment in a rectangle built by \<open>box\<close>, for running the join.\<close>

definition rect_within :: "coord \<Rightarrow> geometry \<Rightarrow> bool" where
  "rect_within q g =
     (case rect_of g of
        None \<Rightarrow> False
      | Some (x0, y0, x1, y1) \<Rightarrow> x0 < fst q \<and> fst q < x1 \<and> y0 < snd q \<and> snd q < y1)"

section \<open>A small run of the bucketizer\<close>

text \<open>
  The grid of the two cells above, in planar coordinates, and four trajectory points
  given in the same coordinates (so nothing is reprojected): two inside cell 0, one on
  the edge x = 100 that the two cells share, one inside cell 1.
\<close>

definition demo_grid :: grid_frame where
  "demo_grid =
     \<lparr>grid_columns = [''cell_id'', ''row'', ''col'', ''utm_crs'', ''area_m2'', ''geometry''],
      grid_rows =
        [\<lparr>attrs = (\<lambda>a. 0), shape = box 0 0 100 100\<rparr>,
         \<lparr>attrs = (\<lambda>a. if a = ''cell_id'' \<or> a = ''col'' then 1 else 0),
          shape = box 100 0 200 100\<rparr>]\<rparr>"

definition demo_df :: "(string, int) data_frame" where
  "demo_df =
     \<lparr>df_columns = [''agent'', ''timestamp'', ''latitude'', ''longitude''],
      df_rows =
        [\<lparr>agent = ''a1'', timestamp = 5, latitude = 50, longitude = 50\<rparr>,
         \<lparr>agent = ''a2'', timestamp = 3, latitude = 20, longitude = 30\<rparr>,
         \<lparr>agent = ''a1'', timestamp = 7, latitude = 50, longitude = 100\<rparr>,
         \<lparr>agent = ''a3'', timestamp = 1, latitude = 10, longitude = 150\<rparr>]\<rparr>"

definition demo_df_outside :: "(string, int) data_frame" where
  "demo_df_outside =
     \<lparr>df_columns = [''agent'', ''timestamp'', ''latitude'', ''longitude''],
      df_rows = [\<lparr>agent = ''a1'', timestamp = 5, latitude = 500, longitude = 500\<rparr>]\<rparr>"

definition demo_args :: agent_args where
  "demo_args =
     \<lparr>out_root = [''out''], bucket_id = 0, grid_id_field = ''cell_id'',
      agent_id_field = ''agent'', latitude_field = ''latitude'',
      longitude_field = ''longitude'', output_filename = None\<rparr>"

definition demo_fs :: "(string, int) file_system" where
  "demo_fs = \<lparr>dirs = {}, files = (\<lambda>p. None)\<rparr>"

section \<open>Facts about float rounding\<close>

lemma round_half_even_of_int: "round_half_even (of_int n) = n"
  by (simp add: round_half_even_def)

lemma double_ulp_pos: "0 < double_ulp x"
  by (simp add: double_ulp_def)

lemma double_round_exact:
  assumes "x / double_ulp x = of_int N"
  shows "double_round x = x"
proof (cases "x = 0")
  case True
  then show ?thesis by (simp add: double_round_def)
next
  case False
  have "double_round x = of_int N * double_ulp x"
    using False assms by (simp add: double_round_def round_half_even_of_int)
  also have "\<dots> = x" using assms double_ulp_pos [of x] by (simp add: field_simps)
  finally show ?thesis .
qed



lemma double_round_int_div_pow2:
  assumes m: "m \<noteq> 0" and bound: "\<bar>m\<bar> < 2 ^ 53"
  shows "double_round (of_int m / 2 ^ j) = of_int m / 2 ^ j"
proof -
  define x :: real where "x = of_int m / 2 ^ j"
  define e where "e = \<lfloor>log 2 \<bar>x\<bar>\<rfloor>"
  have xpos: "0 < \<bar>x\<bar>" using m by (simp add: x_def)
  have "\<bar>x\<bar> = of_int \<bar>m\<bar> / 2 ^ j" by (simp add: x_def abs_divide)
  also have "\<dots> < 2 ^ 53 / 2 ^ j"
  proof -
    have "(of_int \<bar>m\<bar> :: real) < of_int (2 ^ 53)" using bound by (simp only: of_int_less_iff)
    hence "(of_int \<bar>m\<bar> :: real) < 2 ^ 53" by simp
    then show ?thesis by (simp add: divide_strict_right_mono)
  qed
  also have "\<dots> = 2 powr (53 - real j)"
  proof -
    have "(2::real) powr real j = 2 ^ j" by (rule powr_realpow) simp
    moreover have "(2::real) powr 53 = 2 ^ 53" by simp
    ultimately show ?thesis by (simp only: powr_diff)
  qed
  finally have "\<bar>x\<bar> < 2 powr (53 - real j)" .
  hence "log 2 \<bar>x\<bar> < 53 - real j" using xpos by (simp add: log_less_iff)
  hence "of_int e < (53 - real j)" unfolding e_def by linarith
  hence "e < 53 - int j" by linarith
  hence k: "0 \<le> 52 - int j - e" by simp
  define k where "k = nat (52 - int j - e)"
  have ke: "int k = 52 - int j - e" using k by (simp add: k_def)
  have ulp: "double_ulp x = 2 powr of_int (e - 52)" by (simp add: double_ulp_def e_def)
  have inv: "(2::real) powr of_int (e - 52) * 2 powr of_int (52 - e) = 1"
    by (simp add: powr_add [symmetric])
  have upos: "0 < (2::real) powr of_int (e - 52)" by simp
  have "2 powr of_int (52 - e) = 1 / (2::real) powr of_int (e - 52)"
    using inv upos by (simp add: field_simps)
  hence "x / double_ulp x = x * 2 powr of_int (52 - e)"
    unfolding ulp by simp
  also have "of_int (52 - e) = real j + real k" using ke by linarith
  also have "x * 2 powr (real j + real k) = of_int m * 2 ^ k"
  proof -
    have "(2::real) powr real j = 2 ^ j" by (rule powr_realpow) simp
    moreover have "(2::real) powr real k = 2 ^ k" by (rule powr_realpow) simp
    ultimately have "(2::real) powr (real j + real k) = 2 ^ j * 2 ^ k" by (simp only: powr_add)
    then show ?thesis by (simp add: x_def)
  qed
  also have "\<dots> = of_int (m * 2 ^ k)" by simp
  finally have "x / double_ulp x = of_int (m * 2 ^ k)" .
  from double_round_exact [OF this] show ?thesis by (simp add: x_def)
qed

lemma double_round_0: "double_round 0 = 0"
  by (simp add: double_round_def)

lemma double_round_of_int:
  assumes "\<bar>m\<bar> < 2 ^ 53"
  shows "double_round (of_int m) = of_int m"
proof (cases "m = 0")
  case True
  then show ?thesis by (simp add: double_round_0)
next
  case False
  from double_round_int_div_pow2 [OF False assms, of 0] show ?thesis by simp
qed

lemma round_half_even_ge:
  assumes "of_int A \<le> q"
  shows "A \<le> round_half_even q"
proof -
  have "A \<le> \<lfloor>q\<rfloor>" using assms by (simp add: le_floor_iff)
  moreover have "\<lfloor>q\<rfloor> \<le> round_half_even q" by (simp add: round_half_even_def Let_def)
  ultimately show ?thesis by linarith
qed

lemma round_half_even_le:
  assumes "q \<le> of_int B"
  shows "round_half_even q \<le> B"
proof (cases "q = of_int B")
  case True
  then show ?thesis by (simp add: round_half_even_of_int)
next
  case False
  with assms have "q < of_int B" by simp
  hence "\<lfloor>q\<rfloor> < B" by (simp add: floor_less_iff)
  moreover have "round_half_even q \<le> \<lfloor>q\<rfloor> + 1" by (simp add: round_half_even_def Let_def)
  ultimately show ?thesis by linarith
qed

lemma double_ulp_inverse_pow2:
  assumes "x \<noteq> 0" and "\<bar>x\<bar> < 2 ^ 53"
  shows "\<exists>k. 1 / double_ulp x = 2 ^ k"
proof -
  define e where "e = \<lfloor>log 2 \<bar>x\<bar>\<rfloor>"
  have xpos: "0 < \<bar>x\<bar>" using assms(1) by simp
  have "(2::real) powr 53 = 2 ^ 53" by simp
  with assms(2) have "\<bar>x\<bar> < 2 powr 53" by (simp only:)
  hence "log 2 \<bar>x\<bar> < 53" using xpos by (simp add: log_less_iff)
  hence "of_int e < (53::real)" unfolding e_def by linarith
  hence "e < 53" by linarith
  hence k: "0 \<le> 52 - e" by simp
  define k where "k = nat (52 - e)"
  have ke: "real_of_int (52 - e) = real k" using k by (simp add: k_def)
  have inv: "(2::real) powr of_int (e - 52) * 2 powr of_int (52 - e) = 1"
    by (simp add: powr_add [symmetric])
  have upos: "0 < (2::real) powr of_int (e - 52)" by simp
  have "1 / (2::real) powr of_int (e - 52) = 2 powr of_int (52 - e)"
    using inv upos by (simp add: field_simps)
  also have "\<dots> = 2 powr real k" by (simp only: ke)
  also have "\<dots> = 2 ^ k" by (rule powr_realpow) simp
  finally have "1 / double_ulp x = 2 ^ k" by (simp add: double_ulp_def e_def)
  then show ?thesis by blast
qed

lemma double_round_int_bounds:
  assumes "\<bar>x\<bar> < 2 ^ 53"
  shows "of_int a \<le> x \<Longrightarrow> of_int a \<le> double_round x"
    and "x \<le> of_int b \<Longrightarrow> double_round x \<le> of_int b"
proof -
  have both: "(of_int a \<le> x \<longrightarrow> of_int a \<le> double_round x) \<and>
              (x \<le> of_int b \<longrightarrow> double_round x \<le> of_int b)"
  proof (cases "x = 0")
    case True
    then show ?thesis by (simp add: double_round_0)
  next
    case False
    from double_ulp_inverse_pow2 [OF False assms] obtain k where k: "1 / double_ulp x = 2 ^ k"
      by blast
    define u where "u = double_ulp x"
    have upos: "0 < u" by (simp add: u_def double_ulp_pos)
    have uk: "u * 2 ^ k = 1" using k upos by (simp add: u_def field_simps)
    have q: "x / u = x * 2 ^ k" using k upos by (simp add: u_def field_simps)
    have dr: "double_round x = of_int (round_half_even (x * 2 ^ k)) * u"
      using False q by (simp add: double_round_def u_def)
    show ?thesis
    proof (intro conjI impI)
      assume "of_int a \<le> x"
      hence "of_int a * 2 ^ k \<le> x * (2 ^ k :: real)" by (simp add: mult_right_mono)
      hence "of_int (a * 2 ^ k) \<le> x * (2 ^ k :: real)" by simp
      hence "a * 2 ^ k \<le> round_half_even (x * 2 ^ k)" by (rule round_half_even_ge)
      hence "(of_int (a * 2 ^ k) :: real) \<le> of_int (round_half_even (x * 2 ^ k))"
        by (simp only: of_int_le_iff)
      hence "of_int (a * 2 ^ k) * u \<le> of_int (round_half_even (x * 2 ^ k)) * u"
        using upos by (simp add: mult_right_mono)
      moreover have "of_int (a * 2 ^ k) * u = of_int a * (u * 2 ^ k)" by simp
      moreover have "of_int a * (u * 2 ^ k) = (of_int a :: real)" by (simp only: uk mult_1_right)
      ultimately show "of_int a \<le> double_round x" unfolding dr by (simp only:)
    next
      assume "x \<le> of_int b"
      hence "x * (2 ^ k :: real) \<le> of_int b * 2 ^ k" by (simp add: mult_right_mono)
      hence "x * (2 ^ k :: real) \<le> of_int (b * 2 ^ k)" by simp
      hence "round_half_even (x * 2 ^ k) \<le> b * 2 ^ k" by (rule round_half_even_le)
      hence "(of_int (round_half_even (x * 2 ^ k)) :: real) \<le> of_int (b * 2 ^ k)"
        by (simp only: of_int_le_iff)
      hence "of_int (round_half_even (x * 2 ^ k)) * u \<le> of_int (b * 2 ^ k) * u"
        using upos by (simp add: mult_right_mono)
      moreover have "of_int (b * 2 ^ k) * u = of_int b * (u * 2 ^ k)" by simp
      moreover have "of_int b * (u * 2 ^ k) = (of_int b :: real)" by (simp only: uk mult_1_right)
      ultimately show "double_round x \<le> of_int b" unfolding dr by (simp only:)
    qed
  qed
  from both show "of_int a \<le> x \<Longrightarrow> of_int a \<le> double_round x" by blast
  from both show "x \<le> of_int b \<Longrightarrow> double_round x \<le> of_int b" by blast
qed

lemma floor_double_round_div6:
  assumes "6 * of_int k \<le> x" and "x \<le> 6 * of_int k + 5" and "\<bar>x\<bar> < 2 ^ 53"
  shows "\<lfloor>double_round x / 6\<rfloor> = k"
proof -
  have "of_int (6 * k) \<le> x" "x \<le> of_int (6 * k + 5)" using assms by simp_all
  from double_round_int_bounds(1) [OF assms(3) this(1)]
       double_round_int_bounds(2) [OF assms(3) this(2)]
  have "6 * of_int k \<le> double_round x" "double_round x \<le> 6 * of_int k + 5" by simp_all
  hence "of_int k \<le> double_round x / 6" "double_round x / 6 < of_int k + 1" by simp_all
  then show ?thesis by (rule floor_unique)
qed

lemma zone_of_small_lon:
  assumes "0 \<le> lon" and "lon \<le> 5"
  shows "best_utm_zone lon = 31"
proof -
  have "\<lfloor>double_round (lon + 180) / 6\<rfloor> = 30"
    by (rule floor_double_round_div6) (use assms in simp_all)
  then show ?thesis by (simp add: best_utm_zone_def float_add_def)
qed

lemma double_round_numeral:
  "(numeral n :: int) < 2 ^ 53 \<Longrightarrow> double_round (numeral n) = numeral n"
  using double_round_of_int [of "numeral n"] by simp

lemma double_round_neg_numeral:
  "(numeral n :: int) < 2 ^ 53 \<Longrightarrow> double_round (- numeral n) = - numeral n"
  using double_round_of_int [of "- numeral n"] by simp

lemma double_round_1: "double_round 1 = 1"
  using double_round_of_int [of 1] by simp

lemma double_round_halves:
  "double_round (1 / 2) = 1 / 2" "double_round (- (1 / 2)) = - (1 / 2)"
  "double_round (5 / 2) = 5 / 2" "double_round (- (5 / 2)) = - (5 / 2)"
  "double_round (7 / 4) = 7 / 4"
  using double_round_int_div_pow2 [of 1 1] double_round_int_div_pow2 [of "-1" 1]
    double_round_int_div_pow2 [of 5 1] double_round_int_div_pow2 [of "-5" 1]
    double_round_int_div_pow2 [of 7 2]
  by simp_all

lemmas float_eval = float_add_def float_sub_def float_mul_def double_round_0 double_round_1
  double_round_numeral double_round_neg_numeral double_round_halves


section \<open>The scan: invariants of the two loops\<close>

lemma visit_cell_Some:
  assumes "visit_cell lib to_wgs utm aoi_m CELL sx sy cid r c = Inr (Some (f, g))"
  shows "cell_id f = cid \<and> row f = r \<and> col f = c \<and> clipped_ok lib aoi_m CELL sx sy f \<and>
         cell_id g = cid \<and> row g = r \<and> col g = c"
  using assms
  by (auto simp: visit_cell_def clipped_ok_def Let_def split: if_splits sum.splits)

lemma scan_cols_inv:
  assumes "scan_cols lib to_wgs utm aoi_m CELL sx sy r cs (fm, fw, cid) = Inr (fm', fw', cid')"
    and "sorted_wrt (<) cs"
  shows "\<exists>new neww. fm' = fm @ new \<and> fw' = fw @ neww \<and> cid' = cid + int (length new) \<and>
           length neww = length new \<and>
           (\<forall>i < length new. cell_id (new ! i) = cid + int i \<and> cell_id (neww ! i) = cid + int i
               \<and> row (neww ! i) = row (new ! i) \<and> col (neww ! i) = col (new ! i)) \<and>
           (\<forall>f \<in> set new. row f = r \<and> col f \<in> set cs \<and> clipped_ok lib aoi_m CELL sx sy f) \<and>
           sorted_wrt (<) (map col new)"
  using assms
proof (induction cs arbitrary: fm fw cid)
  case Nil
  then show ?case by simp
next
  case (Cons c cs)
  from Cons.prems(2) have sorted: "sorted_wrt (<) cs" and less: "\<forall>d \<in> set cs. c < d" by auto
  show ?case
  proof (cases "visit_cell lib to_wgs utm aoi_m CELL sx sy cid r c")
    case (Inl e)
    with Cons.prems(1) show ?thesis by simp
  next
    case (Inr v)
    show ?thesis
    proof (cases v)
      case None
      with Inr Cons.prems(1)
      have "scan_cols lib to_wgs utm aoi_m CELL sx sy r cs (fm, fw, cid) = Inr (fm', fw', cid')"
        by simp
      from Cons.IH [OF this sorted] show ?thesis by auto
    next
      case (Some fg)
      obtain f g where fg: "fg = (f, g)" by (cases fg)
      from visit_cell_Some [of lib to_wgs utm aoi_m CELL sx sy cid r c f g] Inr Some fg
      have vf: "cell_id f = cid" "row f = r" "col f = c" "clipped_ok lib aoi_m CELL sx sy f"
        "cell_id g = cid" "row g = r" "col g = c" by auto
      from Inr Some fg Cons.prems(1)
      have "scan_cols lib to_wgs utm aoi_m CELL sx sy r cs (fm @ [f], fw @ [g], cid + 1)
              = Inr (fm', fw', cid')"
        by simp
      from Cons.IH [OF this sorted]
      obtain new neww where n: "fm' = (fm @ [f]) @ new" "fw' = (fw @ [g]) @ neww"
        "cid' = cid + 1 + int (length new)" "length neww = length new"
        "\<forall>i < length new. cell_id (new ! i) = cid + 1 + int i \<and> cell_id (neww ! i) = cid + 1 + int i
               \<and> row (neww ! i) = row (new ! i) \<and> col (neww ! i) = col (new ! i)"
        "\<forall>f \<in> set new. row f = r \<and> col f \<in> set cs \<and> clipped_ok lib aoi_m CELL sx sy f"
        "sorted_wrt (<) (map col new)"
        by blast
      have ids: "\<forall>i < length (f # new). cell_id ((f # new) ! i) = cid + int i \<and>
                   cell_id ((g # neww) ! i) = cid + int i \<and>
                   row ((g # neww) ! i) = row ((f # new) ! i) \<and>
                   col ((g # neww) ! i) = col ((f # new) ! i)"
      proof (intro allI impI)
        fix i assume "i < length (f # new)"
        then show "cell_id ((f # new) ! i) = cid + int i \<and>
                   cell_id ((g # neww) ! i) = cid + int i \<and>
                   row ((g # neww) ! i) = row ((f # new) ! i) \<and>
                   col ((g # neww) ! i) = col ((f # new) ! i)"
          using n(5) vf by (cases i) auto
      qed
      have srt: "sorted_wrt (<) (map col (f # new))"
        using n(6,7) less vf(3) by auto
      have mem: "\<forall>h \<in> set (f # new). row h = r \<and> col h \<in> set (c # cs) \<and> clipped_ok lib aoi_m CELL sx sy h"
        using n(6) vf by auto
      show ?thesis
        apply (rule exI [of _ "f # new"], rule exI [of _ "g # neww"])
        using n(1-4) ids srt mem by simp
    qed
  qed
qed


lemma scan_rows_inv:
  assumes "scan_rows lib to_wgs utm aoi_m CELL sx sy rs cs (fm, fw, cid) = Inr (fm', fw', cid')"
    and "sorted_wrt (<) rs" and "sorted_wrt (<) cs"
  shows "\<exists>new neww. fm' = fm @ new \<and> fw' = fw @ neww \<and> cid' = cid + int (length new) \<and>
           length neww = length new \<and>
           (\<forall>i < length new. cell_id (new ! i) = cid + int i \<and> cell_id (neww ! i) = cid + int i
               \<and> row (neww ! i) = row (new ! i) \<and> col (neww ! i) = col (new ! i)) \<and>
           (\<forall>f \<in> set new. row f \<in> set rs \<and> col f \<in> set cs \<and> clipped_ok lib aoi_m CELL sx sy f) \<and>
           sorted_wrt scan_before new"
  using assms(1,2)
proof (induction rs arbitrary: fm fw cid)
  case Nil
  then show ?case by simp
next
  case (Cons r rs)
  from Cons.prems(2) have sorted: "sorted_wrt (<) rs" and less: "\<forall>d \<in> set rs. r < d" by auto
  show ?case
  proof (cases "scan_cols lib to_wgs utm aoi_m CELL sx sy r cs (fm, fw, cid)")
    case (Inl e)
    with Cons.prems(1) show ?thesis by simp
  next
    case (Inr st)
    obtain fm1 fw1 cid1 where st: "st = (fm1, fw1, cid1)" by (cases st)
    from scan_cols_inv [OF Inr [unfolded st] assms(3)]
    obtain a aw where a: "fm1 = fm @ a" "fw1 = fw @ aw" "cid1 = cid + int (length a)"
      "length aw = length a"
      "\<forall>i < length a. cell_id (a ! i) = cid + int i \<and> cell_id (aw ! i) = cid + int i
               \<and> row (aw ! i) = row (a ! i) \<and> col (aw ! i) = col (a ! i)"
      "\<forall>f \<in> set a. row f = r \<and> col f \<in> set cs \<and> clipped_ok lib aoi_m CELL sx sy f"
      "sorted_wrt (<) (map col a)"
      by blast
    from Inr st Cons.prems(1)
    have "scan_rows lib to_wgs utm aoi_m CELL sx sy rs cs (fm1, fw1, cid1) = Inr (fm', fw', cid')"
      by simp
    from Cons.IH [OF this sorted]
    obtain b bw where b: "fm' = fm1 @ b" "fw' = fw1 @ bw" "cid' = cid1 + int (length b)"
      "length bw = length b"
      "\<forall>i < length b. cell_id (b ! i) = cid1 + int i \<and> cell_id (bw ! i) = cid1 + int i
               \<and> row (bw ! i) = row (b ! i) \<and> col (bw ! i) = col (b ! i)"
      "\<forall>f \<in> set b. row f \<in> set rs \<and> col f \<in> set cs \<and> clipped_ok lib aoi_m CELL sx sy f"
      "sorted_wrt scan_before b"
      by blast
    have ids: "\<forall>i < length (a @ b). cell_id ((a @ b) ! i) = cid + int i \<and>
                 cell_id ((aw @ bw) ! i) = cid + int i \<and>
                 row ((aw @ bw) ! i) = row ((a @ b) ! i) \<and>
                 col ((aw @ bw) ! i) = col ((a @ b) ! i)"
    proof (intro allI impI)
      fix i assume i: "i < length (a @ b)"
      show "cell_id ((a @ b) ! i) = cid + int i \<and>
                 cell_id ((aw @ bw) ! i) = cid + int i \<and>
                 row ((aw @ bw) ! i) = row ((a @ b) ! i) \<and>
                 col ((aw @ bw) ! i) = col ((a @ b) ! i)"
      proof (cases "i < length a")
        case True
        then show ?thesis using a(4,5) by (simp add: nth_append)
      next
        case False
        hence "i - length a < length b" using i by simp
        with b(5) have
          "cell_id (b ! (i - length a)) = cid1 + int (i - length a) \<and>
           cell_id (bw ! (i - length a)) = cid1 + int (i - length a) \<and>
           row (bw ! (i - length a)) = row (b ! (i - length a)) \<and>
           col (bw ! (i - length a)) = col (b ! (i - length a))"
          by blast
        then show ?thesis using False a(3,4) by (simp add: nth_append)
      qed
    qed
    have sa: "sorted_wrt scan_before a"
    proof -
      have "sorted_wrt (\<lambda>f g. col f < col g) a"
        using a(7) by (simp add: sorted_wrt_map)
      moreover have "\<forall>f \<in> set a. \<forall>g \<in> set a. col f < col g \<longrightarrow> scan_before f g"
        using a(6) by (simp add: scan_before_def)
      ultimately show ?thesis
        by (rule_tac sorted_wrt_mono_rel [of a "\<lambda>f g. col f < col g"]) auto
    qed
    have cross: "\<forall>f \<in> set a. \<forall>g \<in> set b. scan_before f g"
      using a(6) b(6) less by (auto simp: scan_before_def)
    have srt: "sorted_wrt scan_before (a @ b)"
      using sa b(7) cross by (simp add: sorted_wrt_append)
    have mem: "\<forall>f \<in> set (a @ b). row f \<in> set (r # rs) \<and> col f \<in> set cs \<and>
                 clipped_ok lib aoi_m CELL sx sy f"
      using a(6) b(6) by auto
    show ?thesis
      apply (rule exI [of _ "a @ b"], rule exI [of _ "aw @ bw"])
      using a(1-4) b(1-4) ids srt mem by simp
  qed
qed


lemma main_Inr:
  assumes "main lib CELL aoi_wgs = Inr out"
  shows "\<exists>aoi_m. project_poly (transformer lib 4326 (main_utm lib aoi_wgs)) aoi_wgs = Inr aoi_m \<and>
           build_grid lib (transformer lib (main_utm lib aoi_wgs) 4326) (main_utm lib aoi_wgs) CELL aoi_m = Inr out"
  using assms by (auto simp: main_def Let_def split: sum.splits)

lemma build_grid_Inr:
  assumes "build_grid lib to_wgs utm CELL aoi_m = Inr (fm, fw)"
  shows "\<exists>sx sy cols rows cid. grid_extent CELL (bounds lib aoi_m) = Inr (sx, sy, cols, rows) \<and>
           scan_rows lib to_wgs utm aoi_m CELL sx sy (py_range rows) (py_range cols) ([], [], 0)
             = Inr (fm, fw, cid)"
  using assms by (auto simp: build_grid_def split: sum.splits prod.splits)

lemma build_grid_inv:
  assumes "build_grid lib to_wgs utm CELL aoi_m = Inr (fm, fw)"
    and "grid_extent CELL (bounds lib aoi_m) = Inr (sx, sy, cols, rows)"
  shows "length fw = length fm \<and>
         (\<forall>i < length fm. cell_id (fm ! i) = int i \<and> cell_id (fw ! i) = int i
               \<and> row (fw ! i) = row (fm ! i) \<and> col (fw ! i) = col (fm ! i)) \<and>
         (\<forall>f \<in> set fm. row f \<in> set (py_range rows) \<and> col f \<in> set (py_range cols) \<and>
              clipped_ok lib aoi_m CELL sx sy f) \<and>
         sorted_wrt scan_before fm"
proof -
  from build_grid_Inr [OF assms(1)] assms(2)
  obtain cid where sc:
    "scan_rows lib to_wgs utm aoi_m CELL sx sy (py_range rows) (py_range cols) ([], [], 0)
       = Inr (fm, fw, cid)"
    by auto
  have "sorted_wrt (<) (py_range rows)" "sorted_wrt (<) (py_range cols)"
    by (simp_all add: py_range_def)
  from scan_rows_inv [OF sc this] show ?thesis by auto
qed

lemma sorted_wrt_scan_before_iff:
  assumes srt: "sorted_wrt scan_before fs"
    and ids: "\<forall>i < length fs. cell_id (fs ! i) = int i"
    and f: "f \<in> set fs" and g: "g \<in> set fs"
  shows "scan_before f g \<longleftrightarrow> cell_id f < cell_id g"
proof -
  from f obtain i where i: "i < length fs" "fs ! i = f" by (auto simp: in_set_conv_nth)
  from g obtain j where j: "j < length fs" "fs ! j = g" by (auto simp: in_set_conv_nth)
  have cf: "cell_id f = int i" and cg: "cell_id g = int j" using ids i j by auto
  consider "i < j" | "i = j" | "j < i" by linarith
  then show ?thesis
  proof cases
    case 1
    from sorted_wrt_nth_less [OF srt 1 j(1)] i j have "scan_before f g" by simp
    with 1 cf cg show ?thesis by simp
  next
    case 2
    with i j have "f = g" by simp
    then show ?thesis by (simp add: scan_before_def)
  next
    case 3
    from sorted_wrt_nth_less [OF srt 3 i(1)] i j have "scan_before g f" by simp
    hence "\<not> scan_before f g" by (auto simp: scan_before_def)
    with 3 cf cg show ?thesis by simp
  qed
qed

lemma main_rect_200x100:
  "main rect_lib 100 demo_aoi = Inr (demo_cells, demo_cells_wgs84)"
  by (simp add: main_def main_utm_def rect_lib_def box_def rect_of_def best_utm_def
      zone_of_small_lon transform_ring_def build_grid_def grid_extent_def py_truediv_def
      py_range_def visit_cell_def cell_box_def rect_intersection_def rect_overlap_def
      upto.simps demo_aoi_def demo_cells_def demo_cells_wgs84_def float_eval)

lemma project_rect_200x100:
  "project_poly (transformer rect_lib 4326 (main_utm rect_lib demo_aoi)) demo_aoi
     = Inr (box 0 0 200 100)"
  by (simp add: rect_lib_def box_def transform_ring_def demo_aoi_def)

lemma extent_rect_200x100:
  "grid_extent 100 (bounds rect_lib (box 0 0 200 100)) = Inr (0, 0, 2, 1)"
  by (simp add: rect_lib_def box_def rect_of_def grid_extent_def py_truediv_def float_eval)

lemma project_demo2:
  "project_poly (transformer multi_rect_lib 4326 (main_utm multi_rect_lib demo2_aoi)) demo2_aoi
     = Inr demo2_aoi_m"
  by (simp add: multi_rect_lib_def box_def transform_ring_def demo2_aoi_def demo2_aoi_m_def)

lemma extent_demo2:
  "grid_extent 100 (bounds multi_rect_lib demo2_aoi_m) = Inr (0, 0, 3, 2)"
  by (simp add: multi_rect_lib_def box_def rect_of_def grid_extent_def py_truediv_def float_eval
      demo2_aoi_m_def rects_bounds_def)

lemma main_demo2:
  "main multi_rect_lib 100 demo2_aoi = Inr (demo2_cells, demo2_cells_wgs84)"
  by (simp add: main_def main_utm_def multi_rect_lib_def box_def rect_of_def best_utm_def
      zone_of_small_lon transform_ring_def build_grid_def grid_extent_def py_truediv_def
      py_range_def visit_cell_def cell_box_def clips_def clip_rect_def rect_geometry_def
      rect_area_def rects_bounds_def rects_centroid_def List.map_filter_simps
      upto.simps demo2_aoi_def demo2_cells_def demo2_cells_wgs84_def float_eval)

text \<open>
  Claim C1. Every feature of a completed run has a geometry that is not empty and is
  the intersection of its square footprint with the projected AOI (so it lies inside
  both), and the footprint of an emitted feature meets the AOI: no square that misses
  the AOI is emitted. The footprint of row r, column c is the square the script builds
  with \<^verbatim>\<open>box\<close>: lower left corner (start_x + c * CELL, start_y + r * CELL), each
  side CELL, all in float arithmetic.
\<close>

theorem emitted_cell_is_nonempty_clip:
  assumes "main lib CELL aoi_wgs = Inr (features_metric, features_wgs84)"
    and "f \<in> set features_metric"
    and "project_poly (transformer lib 4326 (main_utm lib aoi_wgs)) aoi_wgs = Inr aoi_m"
    and "grid_extent CELL (bounds lib aoi_m) = Inr (start_x, start_y, cols, rows)"
  shows "row f \<in> set (py_range rows) \<and> col f \<in> set (py_range cols) \<and>
         (let x0 = float_add start_x (float_mul (of_int (col f)) CELL);
              y0 = float_add start_y (float_mul (of_int (row f)) CELL);
              x1 = float_add x0 CELL;
              y1 = float_add y0 CELL;
              square = Polygon [(x1, y0), (x1, y1), (x0, y1), (x0, y0), (x1, y0)] []
          in geometry f = intersection lib square aoi_m \<and>
             \<not> is_empty lib (geometry f) \<and>
             intersects lib aoi_m square)"
proof -
  from main_Inr [OF assms(1)] assms(3)
  have "build_grid lib (transformer lib (main_utm lib aoi_wgs) 4326) (main_utm lib aoi_wgs) CELL aoi_m
          = Inr (features_metric, features_wgs84)"
    by auto
  from build_grid_inv [OF this assms(4)] assms(2)
  have "row f \<in> set (py_range rows) \<and> col f \<in> set (py_range cols) \<and>
        clipped_ok lib aoi_m CELL start_x start_y f"
    by blast
  then show ?thesis unfolding clipped_ok_def cell_box_def box_def Let_def by blast
qed

theorem emitted_cell_is_nonempty_clip_witness:
  "main multi_rect_lib 100 demo2_aoi = Inr (demo2_cells, demo2_cells_wgs84) \<and>
   demo2_cells ! 1 \<in> set demo2_cells \<and>
   project_poly (transformer multi_rect_lib 4326 (main_utm multi_rect_lib demo2_aoi)) demo2_aoi
     = Inr demo2_aoi_m \<and>
   grid_extent 100 (bounds multi_rect_lib demo2_aoi_m) = Inr (0, 0, 3, 2) \<and>
   row (demo2_cells ! 1) = 1 \<and> col (demo2_cells ! 1) = 1 \<and>
   geometry (demo2_cells ! 1) = box 125 125 200 175 \<and>
   geometry (demo2_cells ! 1) =
     intersection multi_rect_lib
       (Polygon [(200, 100), (200, 200), (100, 200), (100, 100), (200, 100)] []) demo2_aoi_m \<and>
   \<not> is_empty multi_rect_lib (geometry (demo2_cells ! 1)) \<and>
   intersects multi_rect_lib demo2_aoi_m
     (Polygon [(200, 100), (200, 200), (100, 200), (100, 100), (200, 100)] []) \<and>
   map (\<lambda>f. (row f, col f)) demo2_cells = [(0, 0), (1, 1), (1, 2)] \<and>
   \<not> intersects multi_rect_lib demo2_aoi_m (cell_box 100 0 0 0 1) \<and>
   cell_box 100 0 0 0 1 = Polygon [(200, 0), (200, 100), (100, 100), (100, 0), (200, 0)] []"
proof -
  note run = main_demo2
  have skip: "\<not> intersects multi_rect_lib demo2_aoi_m (cell_box 100 0 0 0 1)"
    by (simp add: multi_rect_lib_def demo2_aoi_m_def cell_box_def box_def rect_of_def
        clips_def clip_rect_def List.map_filter_simps float_eval)
  have sq: "cell_box 100 0 0 0 1 = Polygon [(200, 0), (200, 100), (100, 100), (100, 0), (200, 0)] []"
    by (simp add: cell_box_def box_def float_eval)
  have mem: "demo2_cells ! 1 \<in> set demo2_cells" by (simp add: demo2_cells_def)
  have rc: "row (demo2_cells ! 1) = 1" "col (demo2_cells ! 1) = 1"
    by (simp_all add: demo2_cells_def)
  have g: "geometry (demo2_cells ! 1) = box 125 125 200 175" by (simp add: demo2_cells_def)
  have x0: "float_add 0 (float_mul (of_int 1) 100) = 100" by (simp add: float_eval)
  have x1: "float_add 100 100 = 200" by (simp add: float_eval)
  note c = emitted_cell_is_nonempty_clip [OF run mem project_demo2 extent_demo2]
  note c3 = c [THEN conjunct2, THEN conjunct2, unfolded rc Let_def x0 x1]
  have l: "map (\<lambda>f. (row f, col f)) demo2_cells = [(0, 0), (1, 1), (1, 2)]"
    by (simp add: demo2_cells_def)
  show ?thesis
    by (intro conjI) (rule run mem project_demo2 extent_demo2 rc g l skip sq
        c3 [THEN conjunct1] c3 [THEN conjunct2, THEN conjunct1]
        c3 [THEN conjunct2, THEN conjunct2])+
qed

text \<open>
  Claim C2. The cell ids of a completed run are 0, 1, ..., N-1 in the order of the
  output, in both collections, and one feature precedes another in row-major scan
  order exactly when its cell id is smaller.
\<close>

theorem cell_ids_contiguous_row_major:
  assumes "main lib CELL aoi_wgs = Inr (features_metric, features_wgs84)"
  shows "map cell_id features_metric = map int [0..<length features_metric] \<and>
         map cell_id features_wgs84 = map cell_id features_metric \<and>
         sorted_wrt scan_before features_metric \<and>
         (\<forall>f \<in> set features_metric. \<forall>g \<in> set features_metric.
            scan_before f g \<longleftrightarrow> cell_id f < cell_id g)"
proof -
  from main_Inr [OF assms] obtain aoi_m where
    bg: "build_grid lib (transformer lib (main_utm lib aoi_wgs) 4326) (main_utm lib aoi_wgs) CELL aoi_m
          = Inr (features_metric, features_wgs84)"
    by auto
  from build_grid_Inr [OF bg] obtain sx sy cols rows where
    "grid_extent CELL (bounds lib aoi_m) = Inr (sx, sy, cols, rows)" by auto
  from build_grid_inv [OF bg this]
  have len: "length features_wgs84 = length features_metric"
    and ids: "\<forall>i < length features_metric. cell_id (features_metric ! i) = int i"
    and idw: "\<forall>i < length features_metric. cell_id (features_wgs84 ! i) = int i"
    and srt: "sorted_wrt scan_before features_metric"
    by auto
  have a: "map cell_id features_metric = map int [0..<length features_metric]"
  proof (rule nth_equalityI)
    show "length (map cell_id features_metric) = length (map int [0..<length features_metric])"
      by simp
  next
    fix i assume "i < length (map cell_id features_metric)"
    then show "map cell_id features_metric ! i = map int [0..<length features_metric] ! i"
      using ids by simp
  qed
  have b: "map cell_id features_wgs84 = map cell_id features_metric"
  proof (rule nth_equalityI)
    show "length (map cell_id features_wgs84) = length (map cell_id features_metric)"
      using len by simp
  next
    fix i assume "i < length (map cell_id features_wgs84)"
    hence i: "i < length features_metric" using len by simp
    with ids idw have "cell_id (features_wgs84 ! i) = cell_id (features_metric ! i)" by simp
    then show "map cell_id features_wgs84 ! i = map cell_id features_metric ! i"
      using i len by simp
  qed
  have c: "\<forall>f \<in> set features_metric. \<forall>g \<in> set features_metric.
            scan_before f g \<longleftrightarrow> cell_id f < cell_id g"
  proof (intro ballI)
    fix f g assume "f \<in> set features_metric" "g \<in> set features_metric"
    then show "scan_before f g \<longleftrightarrow> cell_id f < cell_id g"
      by (rule sorted_wrt_scan_before_iff [OF srt ids])
  qed
  from a b c srt show ?thesis by blast
qed

theorem cell_ids_contiguous_row_major_witness:
  "main rect_lib 100 demo_aoi = Inr (demo_cells, demo_cells_wgs84) \<and>
   map cell_id demo_cells = map int [0..<length demo_cells] \<and>
   map cell_id demo_cells_wgs84 = map cell_id demo_cells \<and>
   sorted_wrt scan_before demo_cells \<and>
   (scan_before (demo_cells ! 0) (demo_cells ! 1)
      \<longleftrightarrow> cell_id (demo_cells ! 0) < cell_id (demo_cells ! 1)) \<and>
   length demo_cells = 2"
proof -
  note run = main_rect_200x100
  note c = cell_ids_contiguous_row_major [OF run]
  note c1 = c [THEN conjunct1]
  note c2 = c [THEN conjunct2, THEN conjunct1]
  note c3 = c [THEN conjunct2, THEN conjunct2, THEN conjunct1]
  note c4 = c [THEN conjunct2, THEN conjunct2, THEN conjunct2]
  have m0: "demo_cells ! 0 \<in> set demo_cells" and m1: "demo_cells ! 1 \<in> set demo_cells"
    by (simp_all add: demo_cells_def)
  note c5 = c4 [THEN bspec, OF m0, THEN bspec, OF m1]
  have len: "length demo_cells = 2" by (simp add: demo_cells_def)
  show ?thesis by (intro conjI) (rule run c1 c2 c3 c5 len)+
qed


section \<open>The zone selection on valid longitudes\<close>








section \<open>Empty AOI, cell size\<close>

text \<open>
  Claim C5. An empty polygon, the most degenerate AOI of zero area, does not give an
  empty grid: the run stops with an exception while the AOI is projected, because the
  transformer is called without coordinates.
\<close>

theorem main_empty_polygon_fails:
  "main lib CELL (Polygon [] []) = Inl TypeError"
  by (simp add: main_def transform_ring_def)

lemma grid_extent_zero: "grid_extent 0 bnds = Inl ZeroDivisionError"
  by (simp add: grid_extent_def py_truediv_def split: prod.splits)

text \<open>
  Claim C6, amended. With a cell size of 0 every run ends in an exception, and once the
  AOI is projected the exception is the division by zero of the origin alignment.
\<close>

theorem main_zero_cell_size_fails:
  "isl (main lib 0 aoi_wgs) \<and>
   (\<forall>aoi_m. project_poly (transformer lib 4326 (main_utm lib aoi_wgs)) aoi_wgs = Inr aoi_m
      \<longrightarrow> main lib 0 aoi_wgs = Inl ZeroDivisionError)"
proof -
  have bg: "\<And>w u a. build_grid lib w u 0 a = Inl ZeroDivisionError"
    by (simp add: build_grid_def grid_extent_zero)
  show ?thesis
    by (cases "project_poly (transformer lib 4326 (main_utm lib aoi_wgs)) aoi_wgs")
       (simp_all add: main_def Let_def bg)
qed

theorem main_zero_cell_size_fails_witness:
  "project_poly (transformer rect_lib 4326 (main_utm rect_lib demo_aoi)) demo_aoi
     = Inr (box 0 0 200 100) \<and>
   main rect_lib 0 demo_aoi = Inl ZeroDivisionError"
proof -
  note p = project_rect_200x100
  from main_zero_cell_size_fails [of rect_lib demo_aoi] p
  have "main rect_lib 0 demo_aoi = Inl ZeroDivisionError" by blast
  with p show ?thesis by (rule conjI)
qed

text \<open>
  A negative cell size is not rejected: the column and row counts are negative, both
  loops are empty, and the run completes with no cell.
\<close>

theorem main_negative_cell_size_counterexample:
  "main rect_lib (- 100) (box 0 0 (25 / 10000) (25 / 10000)) = Inr ([], [])"
  by (simp add: main_def main_utm_def rect_lib_def box_def rect_of_def best_utm_def
      zone_of_small_lon transform_ring_def build_grid_def grid_extent_def py_truediv_def
      py_range_def float_eval)


section \<open>Anchoring and coverage\<close>











section \<open>Decimal names are injective\<close>

lemma digit_char_inj:
  assumes "a < 10" "b < 10" "digit_char a = digit_char b"
  shows "a = b"
proof -
  have d: "distinct ''0123456789''" by simp
  have "a < length ''0123456789''" "b < length ''0123456789''" using assms by simp_all
  with d assms(3) show ?thesis unfolding digit_char_def by (simp only: nth_eq_iff_index_eq)
qed

lemma digit_char_not_minus:
  assumes "a < 10"
  shows "digit_char a \<noteq> CHR ''-''"
proof -
  have "digit_char a \<in> set ''0123456789''"
    unfolding digit_char_def using assms by (intro nth_mem) simp
  then show ?thesis by auto
qed

lemma str_nat_nonempty: "str_nat n \<noteq> []"
  by (subst str_nat.simps) simp

lemma str_nat_length_ge2: "10 \<le> n \<Longrightarrow> 2 \<le> length (str_nat n)"
proof -
  assume "10 \<le> n"
  hence "str_nat n = str_nat (n div 10) @ [digit_char (n mod 10)]"
    by (subst str_nat.simps) simp
  moreover have "1 \<le> length (str_nat (n div 10))"
    using str_nat_nonempty [of "n div 10"] by (cases "str_nat (n div 10)") simp_all
  ultimately show ?thesis by simp
qed

lemma str_nat_inj: "str_nat m = str_nat n \<Longrightarrow> m = n"
proof (induction m arbitrary: n rule: str_nat.induct)
  case (1 m)
  show ?case
  proof (cases "m < 10")
    case True
    hence m: "str_nat m = [digit_char m]" by (subst str_nat.simps) simp
    show ?thesis
    proof (cases "n < 10")
      case n: True
      hence "str_nat n = [digit_char n]" by (subst str_nat.simps) simp
      with m "1.prems" have "digit_char m = digit_char n" by simp
      with True n show ?thesis by (rule digit_char_inj)
    next
      case False
      hence "2 \<le> length (str_nat n)" by (intro str_nat_length_ge2) simp
      with m "1.prems" show ?thesis by simp
    qed
  next
    case False
    hence m: "str_nat m = str_nat (m div 10) @ [digit_char (m mod 10)]"
      by (subst str_nat.simps) simp
    show ?thesis
    proof (cases "n < 10")
      case True
      hence "str_nat n = [digit_char n]" by (subst str_nat.simps) simp
      moreover have "2 \<le> length (str_nat m)" using False by (intro str_nat_length_ge2) simp
      ultimately show ?thesis using "1.prems" by simp
    next
      case n: False
      hence "str_nat n = str_nat (n div 10) @ [digit_char (n mod 10)]"
        by (subst str_nat.simps) simp
      with m "1.prems" have a: "str_nat (m div 10) = str_nat (n div 10)"
        and b: "digit_char (m mod 10) = digit_char (n mod 10)" by simp_all
      from "1.IH" [OF False a] have d: "m div 10 = n div 10" .
      have "m mod 10 = n mod 10" by (rule digit_char_inj [OF _ _ b]) simp_all
      with d show ?thesis by (metis div_mult_mod_eq)
    qed
  qed
qed

lemma str_nat_hd_not_minus: "hd (str_nat n) \<noteq> CHR ''-''"
proof (induction n rule: str_nat.induct)
  case (1 n)
  show ?case
  proof (cases "n < 10")
    case True
    hence "str_nat n = [digit_char n]" by (subst str_nat.simps) simp
    with True show ?thesis by (simp add: digit_char_not_minus)
  next
    case False
    hence "str_nat n = str_nat (n div 10) @ [digit_char (n mod 10)]"
      by (subst str_nat.simps) simp
    with "1.IH" [OF False] str_nat_nonempty [of "n div 10"] show ?thesis by simp
  qed
qed

lemma str_int_inj: "str_int i = str_int j \<Longrightarrow> i = j"
proof -
  assume eq: "str_int i = str_int j"
  have neg: "\<And>a b. CHR ''-'' # str_nat a \<noteq> str_nat b"
  proof
    fix a b assume "CHR ''-'' # str_nat a = str_nat b"
    hence "hd (str_nat b) = CHR ''-''" by (metis list.sel(1))
    with str_nat_hd_not_minus show False by blast
  qed
  show ?thesis
  proof (cases "i < 0")
    case True
    show ?thesis
    proof (cases "j < 0")
      case j: True
      with True eq have "str_nat (nat (- i)) = str_nat (nat (- j))" by (simp add: str_int_def)
      hence "nat (- i) = nat (- j)" by (rule str_nat_inj)
      with True j show ?thesis by simp
    next
      case False
      with True eq neg show ?thesis by (simp add: str_int_def)
    qed
  next
    case False
    show ?thesis
    proof (cases "j < 0")
      case True
      with False eq neg [of "nat (- j)" "nat i"] show ?thesis by (simp add: str_int_def)
    next
      case j: False
      with False eq have "str_nat (nat i) = str_nat (nat j)" by (simp add: str_int_def)
      hence "nat i = nat j" by (rule str_nat_inj)
      with False j show ?thesis by simp
    qed
  qed
qed

lemma cell_folder_inj: "cell_folder args c = cell_folder args d \<Longrightarrow> c = d"
  by (auto simp: cell_folder_def dest: str_int_inj)

lemma out_csv_inj: "out_csv args c = out_csv args d \<Longrightarrow> c = d"
  by (auto simp: out_csv_def dest: cell_folder_inj)

lemma out_csv_not_prefix_folder: "out_csv args c \<notin> set (prefixes (cell_folder args d))"
proof
  assume "out_csv args c \<in> set (prefixes (cell_folder args d))"
  hence "prefix (out_csv args c) (cell_folder args d)" by simp
  hence "length (out_csv args c) \<le> length (cell_folder args d)" by (rule prefix_length_le)
  then show False by (simp add: out_csv_def cell_folder_def)
qed

lemma out_csv_not_prefix_root: "out_csv args c \<notin> set (prefixes (out_root args))"
proof
  assume "out_csv args c \<in> set (prefixes (out_root args))"
  hence "prefix (out_csv args c) (out_root args)" by simp
  hence "length (out_csv args c) \<le> length (out_root args)" by (rule prefix_length_le)
  then show False by (simp add: out_csv_def cell_folder_def)
qed

lemma default_out_name_inj:
  assumes "output_filename a = None \<or> output_filename a = Some []"
    and "output_filename b = None \<or> output_filename b = Some []"
    and "out_name a = out_name b"
  shows "bucket_id a = bucket_id b"
  using assms by (auto simp: out_name_def dest: str_int_inj)

section \<open>Effects of the file operations\<close>

lemma mkdir_parents_Inr:
  assumes "mkdir_parents fs p = Inr fs1"
  shows "files fs1 = files fs" and "dirs fs1 = dirs fs \<union> set (prefixes p)"
  using assms by (auto simp: mkdir_parents_def split: if_splits)

lemma header_count_append: "header_count (xs @ ys) = header_count xs + header_count ys"
  by (simp add: header_count_def)

lemma header_count_out_df: "header_count (out_df args cid sub) = 0"
  by (simp add: header_count_def out_df_def filter_map comp_def)

lemma data_times_map_Data:
  "data_times (map (\<lambda>p. Data (f p) (g p) (h p) (t p) c b) xs) = map t xs"
  by (induction xs) simp_all

lemma data_times_out_df: "data_times (out_df args cid sub) = map timestamp (sort_key timestamp sub)"
  unfolding out_df_def by (rule data_times_map_Data)

lemma sorted_out_df: "sorted (data_times (out_df args cid sub))"
  by (simp add: data_times_out_df)

text \<open>What one pass of the loop body does to the files.\<close>

lemma write_cell_files:
  assumes "write_cell args time_col fs grp = (fs', r)"
  shows "\<forall>q. q \<noteq> out_csv args (fst grp) \<longrightarrow> files fs' q = files fs q"
    and "r = None \<Longrightarrow> files fs' (out_csv args (fst grp)) =
           Some ((case files fs (out_csv args (fst grp)) of
                    None \<Rightarrow> [Header (out_cols args time_col)] | Some old \<Rightarrow> old)
                 @ out_df args (fst grp) (snd grp))"
    and "r \<noteq> None \<Longrightarrow> files fs' = files fs"
proof -
  let ?p = "out_csv args (fst grp)"
  show "\<forall>q. q \<noteq> ?p \<longrightarrow> files fs' q = files fs q"
    using assms
    by (auto simp: write_cell_def to_csv_append_def Let_def
             dest: mkdir_parents_Inr(1) split: sum.splits if_splits)
  show "r \<noteq> None \<Longrightarrow> files fs' = files fs"
    using assms
    by (auto simp: write_cell_def to_csv_append_def Let_def
             dest: mkdir_parents_Inr(1) split: sum.splits if_splits)
  assume "r = None"
  with assms obtain fs1 where m: "mkdir_parents fs (cell_folder args (fst grp)) = Inr fs1"
    and w: "to_csv_append fs1 ?p (\<not> path_exists fs1 ?p) (out_cols args time_col)
              (out_df args (fst grp) (snd grp)) = Inr fs'"
    by (auto simp: write_cell_def Let_def split: sum.splits)
  from mkdir_parents_Inr [OF m] have f1: "files fs1 = files fs" by simp
  from w have nd: "?p \<notin> dirs fs1" by (auto simp: to_csv_append_def split: if_splits)
  hence wh: "(\<not> path_exists fs1 ?p) = (files fs ?p = None)" by (simp add: path_exists_def f1)
  from w nd have "files fs' ?p =
      Some ((case files fs1 ?p of None \<Rightarrow> [] | Some old \<Rightarrow> old)
            @ (if \<not> path_exists fs1 ?p then [Header (out_cols args time_col)] else [])
            @ out_df args (fst grp) (snd grp))"
    by (auto simp: to_csv_append_def)
  then show "files fs' ?p =
           Some ((case files fs ?p of
                    None \<Rightarrow> [Header (out_cols args time_col)] | Some old \<Rightarrow> old)
                 @ out_df args (fst grp) (snd grp))"
    unfolding wh f1 by (cases "files fs ?p") simp_all
qed

lemma header_count_one_header: "header_count [Header cols] = 1"
  by (simp add: header_count_def)

lemma write_cell_one_header:
  assumes inv: "one_header_each fs"
    and w: "write_cell args time_col fs grp = (fs', r)"
  shows "one_header_each fs'"
proof (cases r)
  case (Some e)
  with write_cell_files(3) [OF w] inv show ?thesis by (simp add: one_header_each_def)
next
  case None
  let ?p = "out_csv args (fst grp)"
  note new = write_cell_files(2) [OF w None]
  note other = write_cell_files(1) [OF w]
  show ?thesis unfolding one_header_each_def
  proof (intro allI impI)
    fix q ls assume q: "files fs' q = Some ls"
    show "header_count ls = 1"
    proof (cases "q = ?p")
      case False
      with other q have "files fs q = Some ls" by simp
      with inv show ?thesis by (simp add: one_header_each_def)
    next
      case True
      show ?thesis
      proof (cases "files fs ?p")
        case None
        with new q True have "ls = [Header (out_cols args time_col)] @ out_df args (fst grp) (snd grp)"
          by simp
        then show ?thesis
          by (simp only: header_count_append header_count_out_df header_count_one_header)
      next
        case (Some old)
        with new q True have "ls = old @ out_df args (fst grp) (snd grp)" by simp
        moreover from Some inv have "header_count old = 1" by (simp add: one_header_each_def)
        ultimately show ?thesis by (simp add: header_count_append header_count_out_df)
      qed
    qed
  qed
qed

lemma write_groups_one_header:
  assumes "one_header_each fs"
  shows "one_header_each (fst (write_groups args time_col grps fs))"
  using assms
proof (induction grps arbitrary: fs)
  case Nil
  then show ?case by simp
next
  case (Cons grp grps)
  obtain fs' r where w: "write_cell args time_col fs grp = (fs', r)"
    by (cases "write_cell args time_col fs grp")
  from write_cell_one_header [OF Cons.prems w] have inv': "one_header_each fs'" .
  show ?case
  proof (cases r)
    case None
    with w Cons.IH [OF inv'] show ?thesis by simp
  next
    case (Some e)
    with w inv' show ?thesis by simp
  qed
qed

lemma one_header_each_files_cong:
  "files fs1 = files fs \<Longrightarrow> one_header_each fs1 = one_header_each fs"
  by (simp add: one_header_each_def)

lemma agents_main_one_header:
  assumes "one_header_each fs"
  shows "one_header_each (fst (agents_main is_within reproject args grid df fs))"
proof -
  have root: "\<And>fs1. mkdir_parents fs (out_root args) = Inr fs1 \<Longrightarrow> one_header_each fs1"
    using assms mkdir_parents_Inr(1) one_header_each_files_cong by blast
  show ?thesis
    using assms root
    by (auto simp: agents_main_def Let_def write_groups_one_header split: sum.splits)
qed

lemma agents_main_runs_one_header:
  assumes "one_header_each fs"
  shows "one_header_each (agents_main_runs is_within reproject runs fs)"
  using assms
proof (induction runs arbitrary: fs)
  case Nil
  then show ?case by simp
next
  case (Cons run runs)
  obtain args grid df where run: "run = (args, grid, df)" by (cases run)
  from agents_main_one_header [OF Cons.prems]
  have "one_header_each (fst (agents_main is_within reproject args grid df fs))" .
  from Cons.IH [OF this] run show ?case by simp
qed

section \<open>The write loop on groups with distinct cell ids\<close>

lemma write_groups_None:
  assumes "snd (write_groups args time_col (grp # grps) fs) = None"
  shows "snd (write_cell args time_col fs grp) = None \<and>
         write_groups args time_col (grp # grps) fs
           = write_groups args time_col grps (fst (write_cell args time_col fs grp))"
  using assms
  by (cases "write_cell args time_col fs grp") (auto split: option.splits)

lemma write_groups_files:
  assumes "snd (write_groups args time_col grps fs) = None"
    and "distinct (map fst grps)"
  shows "(\<forall>grp \<in> set grps.
            files (fst (write_groups args time_col grps fs)) (out_csv args (fst grp)) =
              Some ((case files fs (out_csv args (fst grp)) of
                       None \<Rightarrow> [Header (out_cols args time_col)] | Some old \<Rightarrow> old)
                    @ out_df args (fst grp) (snd grp))) \<and>
         (\<forall>q. q \<notin> out_csv args ` fst ` set grps \<longrightarrow>
            files (fst (write_groups args time_col grps fs)) q = files fs q)"
  using assms
proof (induction grps arbitrary: fs)
  case Nil
  then show ?case by simp
next
  case (Cons grp grps)
  define fs1 where "fs1 = fst (write_cell args time_col fs grp)"
  from write_groups_None [OF Cons.prems(1)]
  have r: "snd (write_cell args time_col fs grp) = None"
    and eq: "write_groups args time_col (grp # grps) fs = write_groups args time_col grps fs1"
    by (simp_all add: fs1_def)
  have w: "write_cell args time_col fs grp = (fs1, None)"
    using r by (simp add: fs1_def prod_eq_iff)
  from Cons.prems(1) eq have n: "snd (write_groups args time_col grps fs1) = None" by simp
  from Cons.prems(2) have d: "distinct (map fst grps)" and nin: "fst grp \<notin> fst ` set grps"
    by simp_all
  note IH = Cons.IH [OF n d]
  note other = write_cell_files(1) [OF w]
  note new = write_cell_files(2) [OF w refl]
  have pnin: "out_csv args (fst grp) \<notin> out_csv args ` fst ` set grps"
    using nin by (auto dest: out_csv_inj)
  have a: "\<forall>g \<in> set (grp # grps).
            files (fst (write_groups args time_col grps fs1)) (out_csv args (fst g)) =
              Some ((case files fs (out_csv args (fst g)) of
                       None \<Rightarrow> [Header (out_cols args time_col)] | Some old \<Rightarrow> old)
                    @ out_df args (fst g) (snd g))"
  proof
    fix g assume g: "g \<in> set (grp # grps)"
    show "files (fst (write_groups args time_col grps fs1)) (out_csv args (fst g)) =
              Some ((case files fs (out_csv args (fst g)) of
                       None \<Rightarrow> [Header (out_cols args time_col)] | Some old \<Rightarrow> old)
                    @ out_df args (fst g) (snd g))"
    proof (cases "g \<in> set grps")
      case True
      hence "fst g \<noteq> fst grp" using nin by (metis imageI)
      hence "out_csv args (fst g) \<noteq> out_csv args (fst grp)" by (auto dest: out_csv_inj)
      with other have "files fs1 (out_csv args (fst g)) = files fs (out_csv args (fst g))"
        by simp
      with IH True show ?thesis by simp
    next
      case False
      with g have gg: "g = grp" by simp
      from IH pnin have "files (fst (write_groups args time_col grps fs1)) (out_csv args (fst grp))
          = files fs1 (out_csv args (fst grp))" by blast
      with new gg show ?thesis by simp
    qed
  qed
  have b: "\<forall>q. q \<notin> out_csv args ` fst ` set (grp # grps) \<longrightarrow>
            files (fst (write_groups args time_col grps fs1)) q = files fs q"
  proof (intro allI impI)
    fix q assume q: "q \<notin> out_csv args ` fst ` set (grp # grps)"
    hence "q \<noteq> out_csv args (fst grp)" "q \<notin> out_csv args ` fst ` set grps" by auto
    with IH other show "files (fst (write_groups args time_col grps fs1)) q = files fs q"
      by simp
  qed
  from a b show ?case unfolding eq by blast
qed

lemma map_insort_key: "map f (insort_key f x xs) = insort (f x) (map f xs)"
  by (induction xs) simp_all

lemma map_sort_key: "map f (sort_key f xs) = sort (map f xs)"
  by (induction xs) (simp_all add: map_insort_key)

lemma distinct_groupby_cell_id: "distinct (map fst (groupby_cell_id id_field joined))"
  by (simp add: groupby_cell_id_def comp_def)

lemma agents_main_writes:
  assumes "snd (agents_main is_within reproject args grid df fs) = None"
    and "find_time_column (df_columns df) = Inr time_col"
    and "joined_rows is_within reproject grid df \<noteq> []"
  shows "\<exists>fs1. files fs1 = files fs \<and>
           agents_main is_within reproject args grid df fs =
             write_groups args time_col
               (groupby_cell_id (grid_id_field args) (joined_rows is_within reproject grid df)) fs1"
  using assms
  by (auto simp: agents_main_def Let_def dest: mkdir_parents_Inr(1) split: if_splits sum.splits)

text \<open>
  Claim C10. In a run that completes, the file of every cell that received rows is its
  former content (or the header line when there was no file) followed by the block of
  that cell, and the times of the block are in ascending order: they are the sorted
  times of the rows of the cell.
\<close>

theorem appended_block_sorted_by_time:
  assumes "snd (agents_main is_within reproject args grid df fs) = None"
    and "find_time_column (df_columns df) = Inr time_col"
    and "(k, sub) \<in> set (groupby_cell_id (grid_id_field args) (joined_rows is_within reproject grid df))"
  shows "files (fst (agents_main is_within reproject args grid df fs)) (out_csv args k) =
           Some ((case files fs (out_csv args k) of
                    None \<Rightarrow> [Header (out_cols args time_col)] | Some old \<Rightarrow> old)
                 @ out_df args k sub) \<and>
         sorted (data_times (out_df args k sub)) \<and>
         data_times (out_df args k sub) = sort (map timestamp sub)"
proof -
  let ?joined = "joined_rows is_within reproject grid df"
  let ?grps = "groupby_cell_id (grid_id_field args) ?joined"
  from assms(3) have "?joined \<noteq> []" by (auto simp: groupby_cell_id_def)
  from agents_main_writes [OF assms(1,2) this] obtain fs1 where
    f1: "files fs1 = files fs" and
    eq: "agents_main is_within reproject args grid df fs = write_groups args time_col ?grps fs1"
    by blast
  from assms(1) eq have n: "snd (write_groups args time_col ?grps fs1) = None" by simp
  from write_groups_files [OF n distinct_groupby_cell_id] assms(3)
  have "files (fst (write_groups args time_col ?grps fs1)) (out_csv args (fst (k, sub))) =
          Some ((case files fs1 (out_csv args (fst (k, sub))) of
                   None \<Rightarrow> [Header (out_cols args time_col)] | Some old \<Rightarrow> old)
                @ out_df args (fst (k, sub)) (snd (k, sub)))"
    by blast
  hence a: "files (fst (agents_main is_within reproject args grid df fs)) (out_csv args k) =
           Some ((case files fs (out_csv args k) of
                    None \<Rightarrow> [Header (out_cols args time_col)] | Some old \<Rightarrow> old)
                 @ out_df args k sub)"
    unfolding eq f1 by simp
  have b: "sorted (data_times (out_df args k sub))" by (rule sorted_out_df)
  have c: "data_times (out_df args k sub) = sort (map timestamp sub)"
    by (simp add: data_times_out_df map_sort_key)
  from a b c show ?thesis by (intro conjI)
qed

lemma demo_run_completes:
  "snd (agents_main rect_within id demo_args demo_grid demo_df demo_fs) = None"
  by code_simp

lemma demo_time_column: "find_time_column (df_columns demo_df) = Inr ''timestamp''"
  by code_simp

lemma demo_groups:
  "groupby_cell_id (grid_id_field demo_args) (joined_rows rect_within id demo_grid demo_df) =
     [(0, [\<lparr>agent = ''a1'', timestamp = 5, latitude = 50, longitude = 50\<rparr>,
           \<lparr>agent = ''a2'', timestamp = 3, latitude = 20, longitude = 30\<rparr>]),
      (1, [\<lparr>agent = ''a3'', timestamp = 1, latitude = 10, longitude = 150\<rparr>])]"
  by code_simp

theorem appended_block_sorted_by_time_witness:
  "snd (agents_main rect_within id demo_args demo_grid demo_df demo_fs) = None \<and>
   find_time_column (df_columns demo_df) = Inr ''timestamp'' \<and>
   files (fst (agents_main rect_within id demo_args demo_grid demo_df demo_fs))
     [''out'', ''cell_0'', ''visits_bucket0.csv''] =
     Some [Header [''agent'', ''latitude'', ''longitude'', ''timestamp'', ''cell_id'', ''bucket_id''],
           Data ''a2'' 20 30 3 0 0, Data ''a1'' 50 50 5 0 0] \<and>
   sorted [3, 5 :: int]"
proof -
  let ?sub = "[\<lparr>agent = ''a1'', timestamp = 5 :: int, latitude = 50, longitude = 50\<rparr>,
           \<lparr>agent = ''a2'', timestamp = 3, latitude = 20, longitude = 30\<rparr>]"
  have mem: "(0, ?sub) \<in> set (groupby_cell_id (grid_id_field demo_args)
                 (joined_rows rect_within id demo_grid demo_df))"
    unfolding demo_groups by simp
  note c = appended_block_sorted_by_time [OF demo_run_completes demo_time_column mem]
  have p: "out_csv demo_args 0 = [''out'', ''cell_0'', ''visits_bucket0.csv'']" by code_simp
  have o: "out_df demo_args 0 ?sub = [Data ''a2'' 20 30 3 0 0, Data ''a1'' 50 50 5 0 0]"
    by code_simp
  have h: "out_cols demo_args ''timestamp'' =
      [''agent'', ''latitude'', ''longitude'', ''timestamp'', ''cell_id'', ''bucket_id'']"
    by code_simp
  have f: "files demo_fs [''out'', ''cell_0'', ''visits_bucket0.csv''] = None"
    by (simp add: demo_fs_def)
  from c have "files (fst (agents_main rect_within id demo_args demo_grid demo_df demo_fs))
     [''out'', ''cell_0'', ''visits_bucket0.csv''] =
     Some [Header [''agent'', ''latitude'', ''longitude'', ''timestamp'', ''cell_id'', ''bucket_id''],
           Data ''a2'' 20 30 3 0 0, Data ''a1'' 50 50 5 0 0]"
    unfolding p o h f by simp
  moreover from c have "sorted [3, 5 :: int]" unfolding o by simp
  ultimately show ?thesis using demo_run_completes demo_time_column by (intro conjI)
qed

section \<open>Empty join\<close>

text \<open>
  Claim C9. When the join is empty the run leaves the file system as it found it: no
  directory is created and no file is written; and when the column checks pass the run
  ends normally.
\<close>

theorem empty_join_leaves_file_system:
  assumes "joined_rows is_within reproject grid df = []"
  shows "fst (agents_main is_within reproject args grid df fs) = fs \<and>
         (grid_id_field args \<in> set (grid_columns grid) \<and>
          list_all (\<lambda>c. c \<in> set (df_columns df))
            [agent_id_field args, latitude_field args, longitude_field args] \<and>
          find_time_column (df_columns df) = Inr time_col
          \<longrightarrow> agents_main is_within reproject args grid df fs = (fs, None))"
  using assms by (auto simp: agents_main_def Let_def split: sum.splits)

theorem empty_join_leaves_file_system_witness:
  "joined_rows rect_within id demo_grid demo_df_outside = [] \<and>
   grid_id_field demo_args \<in> set (grid_columns demo_grid) \<and>
   list_all (\<lambda>c. c \<in> set (df_columns demo_df_outside))
     [agent_id_field demo_args, latitude_field demo_args, longitude_field demo_args] \<and>
   find_time_column (df_columns demo_df_outside) = Inr ''timestamp'' \<and>
   agents_main rect_within id demo_args demo_grid demo_df_outside demo_fs = (demo_fs, None)"
proof -
  have j: "joined_rows rect_within id demo_grid demo_df_outside = []" by code_simp
  have g: "grid_id_field demo_args \<in> set (grid_columns demo_grid)" by code_simp
  have l: "list_all (\<lambda>c. c \<in> set (df_columns demo_df_outside))
     [agent_id_field demo_args, latitude_field demo_args, longitude_field demo_args]"
    by code_simp
  have t: "find_time_column (df_columns demo_df_outside) = Inr ''timestamp''" by code_simp
  from empty_join_leaves_file_system [OF j, where args = demo_args
      and time_col = "''timestamp''" and fs = demo_fs] g l t
  have "agents_main rect_within id demo_args demo_grid demo_df_outside demo_fs = (demo_fs, None)"
    by blast
  with j g l t show ?thesis by (intro conjI)
qed

section \<open>Header once, then data\<close>

text \<open>
  Claim C8, amended. One pass of the write loop leaves in the cell's file the header
  line followed by the rows when there was no file, and the former content followed by
  the rows (which hold no header) when there was one. Hence, from a file system in which
  every file has exactly one header line (an empty output root in particular), every
  file has exactly one header line after any number of runs. With the default file name
  (no file name given, or an empty one), two runs with different bucket ids write to
  different files of the same cell folder.
\<close>

theorem header_once_then_data:
  "(snd (write_cell args time_col fs grp) = None \<longrightarrow>
      files (fst (write_cell args time_col fs grp)) (out_csv args (fst grp)) =
        Some ((case files fs (out_csv args (fst grp)) of
                 None \<Rightarrow> [Header (out_cols args time_col)] | Some old \<Rightarrow> old)
              @ out_df args (fst grp) (snd grp)) \<and>
      header_count (out_df args (fst grp) (snd grp)) = 0) \<and>
   (one_header_each fs0 \<longrightarrow> one_header_each (agents_main_runs is_within reproject runs fs0)) \<and>
   ((output_filename a = None \<or> output_filename a = Some []) \<and>
    (output_filename b = None \<or> output_filename b = Some []) \<and>
    out_root a = out_root b \<and> bucket_id a \<noteq> bucket_id b
    \<longrightarrow> cell_folder a cid = cell_folder b cid \<and> out_csv a cid \<noteq> out_csv b cid)"
proof (intro conjI impI)
  assume "snd (write_cell args time_col fs grp) = None"
  hence w: "write_cell args time_col fs grp = (fst (write_cell args time_col fs grp), None)"
    by (simp add: prod_eq_iff)
  from write_cell_files(2) [OF w refl]
  show "files (fst (write_cell args time_col fs grp)) (out_csv args (fst grp)) =
        Some ((case files fs (out_csv args (fst grp)) of
                 None \<Rightarrow> [Header (out_cols args time_col)] | Some old \<Rightarrow> old)
              @ out_df args (fst grp) (snd grp))" .
next
  show "header_count (out_df args (fst grp) (snd grp)) = 0" by (rule header_count_out_df)
next
  assume "one_header_each fs0"
  then show "one_header_each (agents_main_runs is_within reproject runs fs0)"
    by (rule agents_main_runs_one_header)
next
  assume h: "(output_filename a = None \<or> output_filename a = Some []) \<and>
    (output_filename b = None \<or> output_filename b = Some []) \<and>
    out_root a = out_root b \<and> bucket_id a \<noteq> bucket_id b"
  then show "cell_folder a cid = cell_folder b cid" by (simp add: cell_folder_def)
  from h have "out_name a \<noteq> out_name b"
    using default_out_name_inj [of a b] by blast
  then show "out_csv a cid \<noteq> out_csv b cid" by (simp add: out_csv_def)
qed


theorem header_once_then_data_witness:
  "snd (write_cell demo_args ''timestamp'' demo_fs
          (0, [\<lparr>agent = ''a1'', timestamp = 5, latitude = 50, longitude = 50\<rparr>])) = None \<and>
   files (fst (write_cell demo_args ''timestamp'' demo_fs
          (0, [\<lparr>agent = ''a1'', timestamp = 5, latitude = 50, longitude = 50\<rparr>])))
     [''out'', ''cell_0'', ''visits_bucket0.csv''] =
     Some [Header [''agent'', ''latitude'', ''longitude'', ''timestamp'', ''cell_id'', ''bucket_id''],
           Data ''a1'' 50 50 5 0 0] \<and>
   one_header_each demo_fs \<and>
   one_header_each
     (agents_main_runs rect_within id
        [(demo_args, demo_grid, demo_df), (demo_args\<lparr>bucket_id := 1\<rparr>, demo_grid, demo_df),
         (demo_args, demo_grid, demo_df)] demo_fs) \<and>
   files
     (agents_main_runs rect_within id
        [(demo_args, demo_grid, demo_df), (demo_args\<lparr>bucket_id := 1\<rparr>, demo_grid, demo_df),
         (demo_args, demo_grid, demo_df)] demo_fs)
     [''out'', ''cell_0'', ''visits_bucket0.csv''] =
     Some [Header [''agent'', ''latitude'', ''longitude'', ''timestamp'', ''cell_id'', ''bucket_id''],
           Data ''a2'' 20 30 3 0 0, Data ''a1'' 50 50 5 0 0,
           Data ''a2'' 20 30 3 0 0, Data ''a1'' 50 50 5 0 0] \<and>
   cell_folder demo_args 0 = cell_folder (demo_args\<lparr>bucket_id := 1\<rparr>) 0 \<and>
   out_csv demo_args 0 \<noteq> out_csv (demo_args\<lparr>bucket_id := 1\<rparr>) 0"
proof -
  let ?grp = "(0 :: int, [\<lparr>agent = ''a1'', timestamp = 5 :: int, latitude = 50, longitude = 50\<rparr>])"
  let ?runs = "[(demo_args, demo_grid, demo_df), (demo_args\<lparr>bucket_id := 1\<rparr>, demo_grid, demo_df),
         (demo_args, demo_grid, demo_df)]"
  note t = header_once_then_data [of demo_args "''timestamp''" demo_fs ?grp demo_fs
      rect_within id ?runs demo_args "demo_args\<lparr>bucket_id := 1\<rparr>" 0]
  have w: "snd (write_cell demo_args ''timestamp'' demo_fs ?grp) = None" by code_simp
  have p: "out_csv demo_args (fst ?grp) = [''out'', ''cell_0'', ''visits_bucket0.csv'']"
    by code_simp
  have o: "out_df demo_args (fst ?grp) (snd ?grp) = [Data ''a1'' 50 50 5 0 0]" by code_simp
  have h: "out_cols demo_args ''timestamp'' =
      [''agent'', ''latitude'', ''longitude'', ''timestamp'', ''cell_id'', ''bucket_id'']"
    by code_simp
  have f: "files demo_fs [''out'', ''cell_0'', ''visits_bucket0.csv''] = None"
    by (simp add: demo_fs_def)
  note t1 = t [THEN conjunct1, THEN mp, OF w, THEN conjunct1]
  from t1 have a: "files (fst (write_cell demo_args ''timestamp'' demo_fs ?grp))
     [''out'', ''cell_0'', ''visits_bucket0.csv''] =
     Some [Header [''agent'', ''latitude'', ''longitude'', ''timestamp'', ''cell_id'', ''bucket_id''],
           Data ''a1'' 50 50 5 0 0]"
    unfolding p o h f by simp
  have i0: "one_header_each demo_fs" by (simp add: one_header_each_def demo_fs_def)
  note i = t [THEN conjunct2, THEN conjunct1, THEN mp, OF i0]
  have e: "files (agents_main_runs rect_within id ?runs demo_fs)
     [''out'', ''cell_0'', ''visits_bucket0.csv''] =
     Some [Header [''agent'', ''latitude'', ''longitude'', ''timestamp'', ''cell_id'', ''bucket_id''],
           Data ''a2'' 20 30 3 0 0, Data ''a1'' 50 50 5 0 0,
           Data ''a2'' 20 30 3 0 0, Data ''a1'' 50 50 5 0 0]"
    by code_simp
  have hyp: "(output_filename demo_args = None \<or> output_filename demo_args = Some []) \<and>
    (output_filename (demo_args\<lparr>bucket_id := 1\<rparr>) = None \<or>
     output_filename (demo_args\<lparr>bucket_id := 1\<rparr>) = Some []) \<and>
    out_root demo_args = out_root (demo_args\<lparr>bucket_id := 1\<rparr>) \<and>
    bucket_id demo_args \<noteq> bucket_id (demo_args\<lparr>bucket_id := 1\<rparr>)"
    by (simp add: demo_args_def)
  note d = t [THEN conjunct2, THEN conjunct2, THEN mp, OF hyp]
  note d1 = d [THEN conjunct1] and d2 = d [THEN conjunct2]
  show ?thesis by (intro conjI) (rule w a i0 i e d1 d2)+
qed

text \<open>
  With a file name given on the command line, bucket ids 0 and 1 write to one file.
\<close>

theorem shared_file_name_counterexample:
  "out_csv (demo_args\<lparr>output_filename := Some ''visits.csv''\<rparr>) 0 =
   out_csv (demo_args\<lparr>output_filename := Some ''visits.csv'', bucket_id := 1\<rparr>) 0"
  by (simp add: out_csv_def out_name_def cell_folder_def demo_args_def)

section \<open>Points on a shared boundary\<close>

lemma closed_open_1d:
  fixes L s x :: real and c c' :: int
  assumes L: "0 < L" and "s + of_int c * L \<le> x" "x \<le> s + of_int c * L + L"
    and "s + of_int c' * L < x" "x < s + of_int c' * L + L"
  shows "c = c'"
proof -
  have "of_int c * L < (of_int c' + 1) * L" using assms by (simp add: algebra_simps)
  hence "(of_int c :: real) < of_int c' + 1" using L by (simp only: mult_less_cancel_right_pos)
  hence a: "c \<le> c'" by linarith
  have "of_int c' * L < (of_int c + 1) * L" using assms by (simp add: algebra_simps)
  hence "(of_int c' :: real) < of_int c + 1" using L by (simp only: mult_less_cancel_right_pos)
  hence "c' \<le> c" by linarith
  with a show ?thesis by simp
qed

lemma closed_open_square:
  assumes "0 < CELL" "in_square CELL sx sy r c q" "strictly_in_square CELL sx sy r' c' q"
  shows "r = r' \<and> c = c'"
proof -
  from assms(2) have a: "sx + of_int c * CELL \<le> fst q" "fst q \<le> sx + of_int c * CELL + CELL"
    "sy + of_int r * CELL \<le> snd q" "snd q \<le> sy + of_int r * CELL + CELL"
    by (simp_all add: in_square_def)
  from assms(3) have b: "sx + of_int c' * CELL < fst q" "fst q < sx + of_int c' * CELL + CELL"
    "sy + of_int r' * CELL < snd q" "snd q < sy + of_int r' * CELL + CELL"
    by (simp_all add: strictly_in_square_def)
  have "c = c'" by (rule closed_open_1d [OF assms(1) a(1) a(2) b(1) b(2)])
  moreover have "r = r'" by (rule closed_open_1d [OF assms(1) a(3) a(4) b(3) b(4)])
  ultimately show ?thesis by simp
qed

lemma strictly_in_square_closed:
  "strictly_in_square CELL sx sy r c q \<Longrightarrow> in_square CELL sx sy r c q"
  by (simp add: in_square_def strictly_in_square_def)

lemma filter_at_most_one:
  assumes "distinct (map f xs)"
    and "\<forall>x \<in> set xs. \<forall>y \<in> set xs. P x \<and> P y \<longrightarrow> f x = f y"
  shows "length (filter P xs) \<le> 1"
  using assms
proof (induction xs)
  case Nil
  then show ?case by simp
next
  case (Cons x xs)
  have d: "distinct (map f xs)" using Cons.prems(1) by simp
  have nin: "f x \<notin> f ` set xs" using Cons.prems(1) by simp
  have a: "\<forall>u \<in> set xs. \<forall>v \<in> set xs. P u \<and> P v \<longrightarrow> f u = f v"
  proof (intro ballI impI)
    fix u v assume "u \<in> set xs" "v \<in> set xs" "P u \<and> P v"
    moreover from this have "u \<in> set (x # xs)" "v \<in> set (x # xs)" by simp_all
    ultimately show "f u = f v" using Cons.prems(2) by blast
  qed
  note IH = Cons.IH [OF d a]
  show ?case
  proof (cases "P x")
    case False
    with IH show ?thesis by simp
  next
    case True
    have "\<forall>y \<in> set xs. \<not> P y"
    proof
      fix y assume y: "y \<in> set xs"
      show "\<not> P y"
      proof
        assume "P y"
        have "x \<in> set (x # xs)" "y \<in> set (x # xs)" using y by simp_all
        with True \<open>P y\<close> Cons.prems(2) have "f x = f y" by blast
        moreover have "f y \<in> f ` set xs" using y by (rule imageI)
        ultimately show False using nin by simp
      qed
    qed
    hence "filter P xs = []" by (simp only: filter_empty_conv)
    with True show ?thesis by simp
  qed
qed

lemma sjoin_single:
  "sjoin is_within reproject [p] grid =
     map (Pair p) (filter (\<lambda>g. is_within (point_xy reproject p) (shape g)) grid)"
  by (simp add: sjoin_def)

text \<open>
  Claim C4. Under the strict containment rule, on a grid whose rows have distinct
  (row, col), the join gives a point at most one cell, and a point that lies in the
  closed squares of two different cells (on their shared boundary) is given no cell at
  all: it is dropped like the points outside every cell. The join of a table is the
  join of its points one by one.
\<close>

theorem boundary_point_in_at_most_one_cell:
  assumes "0 < CELL"
    and "strict_within_rule is_within CELL start_x start_y grid"
    and "distinct (map (\<lambda>g. (attrs g ''row'', attrs g ''col'')) grid)"
  shows "length (sjoin is_within reproject [p] grid) \<le> 1 \<and>
         (in_square CELL start_x start_y r c (point_xy reproject p) \<and>
          in_square CELL start_x start_y r' c' (point_xy reproject p) \<and> (r, c) \<noteq> (r', c')
          \<longrightarrow> sjoin is_within reproject [p] grid = []) \<and>
         sjoin is_within reproject pts grid =
           concat (map (\<lambda>p. sjoin is_within reproject [p] grid) pts)"
proof (intro conjI impI)
  let ?q = "point_xy reproject p"
  let ?P = "\<lambda>g. is_within ?q (shape g)"
  have strict: "\<And>g. g \<in> set grid \<Longrightarrow> ?P g \<Longrightarrow>
      strictly_in_square CELL start_x start_y (attrs g ''row'') (attrs g ''col'') ?q"
    using assms(2) unfolding strict_within_rule_def by blast
  have "\<forall>x \<in> set grid. \<forall>y \<in> set grid. ?P x \<and> ?P y \<longrightarrow>
          (attrs x ''row'', attrs x ''col'') = (attrs y ''row'', attrs y ''col'')"
  proof (intro ballI impI)
    fix x y assume xy: "x \<in> set grid" "y \<in> set grid" "?P x \<and> ?P y"
    from strict [OF xy(1)] strict [OF xy(2)] xy(3)
    have sx: "strictly_in_square CELL start_x start_y (attrs x ''row'') (attrs x ''col'') ?q"
      and sy: "strictly_in_square CELL start_x start_y (attrs y ''row'') (attrs y ''col'') ?q"
      by simp_all
    from closed_open_square [OF assms(1) strictly_in_square_closed [OF sx] sy]
    show "(attrs x ''row'', attrs x ''col'') = (attrs y ''row'', attrs y ''col'')" by simp
  qed
  from filter_at_most_one [OF assms(3) this]
  show "length (sjoin is_within reproject [p] grid) \<le> 1" by (simp add: sjoin_single)
  show "sjoin is_within reproject pts grid =
           concat (map (\<lambda>p. sjoin is_within reproject [p] grid) pts)"
    by (simp add: sjoin_def)
  assume b: "in_square CELL start_x start_y r c ?q \<and>
          in_square CELL start_x start_y r' c' ?q \<and> (r, c) \<noteq> (r', c')"
  have "filter ?P grid = []"
  proof (rule ccontr)
    assume "filter ?P grid \<noteq> []"
    then obtain g where g: "g \<in> set grid" "?P g" by (metis filter_False)
    from strict [OF g]
    have s: "strictly_in_square CELL start_x start_y (attrs g ''row'') (attrs g ''col'') ?q" .
    from b have c1: "in_square CELL start_x start_y r c ?q"
      and c2: "in_square CELL start_x start_y r' c' ?q" and ne: "(r, c) \<noteq> (r', c')"
      by blast+
    from closed_open_square [OF assms(1) c1 s] closed_open_square [OF assms(1) c2 s]
    have "(r, c) = (r', c')" by simp
    with ne show False by contradiction
  qed
  then show "sjoin is_within reproject [p] grid = []" by (simp add: sjoin_single)
qed

theorem boundary_point_in_at_most_one_cell_witness:
  "(0 :: real) < 100 \<and>
   strict_within_rule rect_within 100 0 0 (grid_rows demo_grid) \<and>
   distinct (map (\<lambda>g. (attrs g ''row'', attrs g ''col'')) (grid_rows demo_grid)) \<and>
   in_square 100 0 0 0 0
     (point_xy id \<lparr>agent = ''a1'', timestamp = 7 :: int, latitude = 50, longitude = 100\<rparr>) \<and>
   in_square 100 0 0 0 1
     (point_xy id \<lparr>agent = ''a1'', timestamp = 7 :: int, latitude = 50, longitude = 100\<rparr>) \<and>
   sjoin rect_within id
     [\<lparr>agent = ''a1'', timestamp = 7 :: int, latitude = 50, longitude = 100\<rparr>]
     (grid_rows demo_grid) = [] \<and>
   length (sjoin rect_within id
     [\<lparr>agent = ''a2'', timestamp = 3 :: int, latitude = 20, longitude = 30\<rparr>]
     (grid_rows demo_grid)) = 1"
proof -
  let ?p = "\<lparr>agent = ''a1'', timestamp = 7 :: int, latitude = 50, longitude = 100\<rparr>"
  have h1: "(0 :: real) < 100" by simp
  have h2: "strict_within_rule rect_within 100 0 0 (grid_rows demo_grid)"
    by (simp add: strict_within_rule_def demo_grid_def rect_within_def rect_of_def box_def
        strictly_in_square_def)
  have h3: "distinct (map (\<lambda>g. (attrs g ''row'', attrs g ''col'')) (grid_rows demo_grid))"
    by (simp add: demo_grid_def)
  have b1: "in_square 100 0 0 0 0 (point_xy id ?p)" by (simp add: in_square_def point_xy_def)
  have b2: "in_square 100 0 0 0 1 (point_xy id ?p)" by (simp add: in_square_def point_xy_def)
  have ne: "((0 :: int), (0 :: int)) \<noteq> (0, 1)" by simp
  note t = boundary_point_in_at_most_one_cell [OF h1 h2 h3, of id ?p 0 0 0 1]
  have b: "in_square 100 0 0 0 0 (point_xy id ?p) \<and> in_square 100 0 0 0 1 (point_xy id ?p) \<and>
           ((0 :: int), (0 :: int)) \<noteq> (0, 1)"
    using b1 b2 ne by (intro conjI)
  note e = t [THEN conjunct2, THEN conjunct1, THEN mp, OF b]
  have l: "length (sjoin rect_within id
     [\<lparr>agent = ''a2'', timestamp = 3 :: int, latitude = 20, longitude = 30\<rparr>]
     (grid_rows demo_grid)) = 1"
    by code_simp
  show ?thesis by (intro conjI) (rule h1 h2 h3 b1 b2 e l)+
qed

end
